theory Spec2Isabelle
  imports Main "HOL-Library.Word" "HOL-Library.AList"
begin

unbundle bit_operations_syntax


section \<open>Descriptor checksum (script/descriptor.cpp)\<close>

text \<open>
  \<^verbatim>\<open>uint64_t PolyMod(uint64_t c, int val)\<close>: the state is a \<open>uint64_t\<close>, the top five
  bits of the 40-bit value are read through a \<open>uint8_t\<close>, and \<open>val\<close> is an \<open>int\<close> that is
  converted to \<open>uint64_t\<close> by the XOR.
\<close>

definition PolyMod :: "64 word \<Rightarrow> int \<Rightarrow> 64 word" where
  "PolyMod c val =
     (let c0 = (ucast (drop_bit 35 c) :: 8 word);
          c1 = push_bit 5 (c AND 0x7ffffffff) XOR word_of_int val;
          c2 = (if c0 AND 1 \<noteq> 0 then c1 XOR 0xf5dee51989 else c1);
          c3 = (if c0 AND 2 \<noteq> 0 then c2 XOR 0xa9fdca3312 else c2);
          c4 = (if c0 AND 4 \<noteq> 0 then c3 XOR 0x1bab10e32d else c3);
          c5 = (if c0 AND 8 \<noteq> 0 then c4 XOR 0x3706b1677a else c4);
          c6 = (if c0 AND 16 \<noteq> 0 then c5 XOR 0x644d626ffd else c5)
      in c6)"

text \<open>The two character sets of \<open>DescriptorChecksum\<close>. The quote, the backquote, the double
  quote and the backslash are written by their codes.\<close>

definition INPUT_CHARSET :: string where
  "INPUT_CHARSET =
     ''0123456789()[],'' @ [CHR 0x27] @ ''/*abcdefgh@:$%{}'' @
     ''IJKLMNOPQRSTUVWXYZ&+-.;<=>?!^_|~'' @
     ''ijklmnopqrstuvwxyzABCDEFGH'' @ [CHR 0x60, CHR ''#'', CHR 0x22, CHR 0x5C, CHR '' '']"

definition CHECKSUM_CHARSET :: string where
  "CHECKSUM_CHARSET = ''qpzry9x8gf2tvdw0s3jn54khce6mua7l''"

text \<open>\<open>std::string::find(ch)\<close>: the first index of the character, \<open>npos\<close> as \<open>None\<close>.\<close>

fun str_find :: "string \<Rightarrow> char \<Rightarrow> nat option" where
  "str_find [] ch = None"
| "str_find (x # xs) ch = (if x = ch then Some 0 else map_option Suc (str_find xs ch))"

text \<open>The body of the \<open>for (auto ch : span)\<close> loop, on the state \<open>(c, cls, clscount)\<close>;
  \<open>None\<close> is the early \<open>return ""\<close>.\<close>

fun checksum_loop :: "64 word \<Rightarrow> int \<Rightarrow> nat \<Rightarrow> string \<Rightarrow> (64 word \<times> int \<times> nat) option" where
  "checksum_loop c cls clscount [] = Some (c, cls, clscount)"
| "checksum_loop c cls clscount (ch # rest) =
     (case str_find INPUT_CHARSET ch of
        None \<Rightarrow> None
      | Some pos \<Rightarrow>
          (let c' = PolyMod c (int pos AND 31);
               cls' = cls * 3 + drop_bit 5 (int pos)
           in if clscount + 1 = 3
              then checksum_loop (PolyMod c' cls') 0 0 rest
              else checksum_loop c' cls' (clscount + 1) rest))"

definition checksum_chars :: "64 word \<Rightarrow> string" where
  "checksum_chars c =
     map (\<lambda>j. CHECKSUM_CHARSET ! unat (drop_bit (5 * (7 - j)) c AND 31)) [0..<8]"

definition DescriptorChecksum :: "string \<Rightarrow> string" where
  "DescriptorChecksum span =
     (case checksum_loop 1 0 0 span of
        None \<Rightarrow> []
      | Some (c, cls, clscount) \<Rightarrow>
          (let c1 = (if clscount > 0 then PolyMod c cls else c);
               c2 = ((\<lambda>x. PolyMod x 0) ^^ 8) c1;
               c3 = c2 XOR 1
           in checksum_chars c3))"

definition AddChecksum :: "string \<Rightarrow> string" where
  "AddChecksum str = str @ ''#'' @ DescriptorChecksum str"


text \<open>
  \<open>spanparsing::Split\<close> is in \<open>util/spanparsing\<close>, which is not among the sources. It is
  modelled as the function that cuts the span at every occurrence of the separator and
  returns the pieces in order (one piece more than there are separators).
\<close>

fun Split :: "string \<Rightarrow> char \<Rightarrow> string list" where
  "Split [] sep = [[]]"
| "Split (x # xs) sep =
     (if x = sep then [] # Split xs sep
      else (case Split xs sep of [] \<Rightarrow> [[x]] | p # ps \<Rightarrow> (x # p) # ps))"

datatype checksum_error =
    MultipleHashSymbols
  | MissingChecksum
  | ExpectedEightCharacters nat
  | InvalidCharactersInPayload
  | ChecksumMismatch string string

text \<open>
  \<open>CheckChecksum\<close>: \<open>Inl\<close> is \<open>return false\<close> with the error, \<open>Inr\<close> is \<open>return true\<close> with the new
  value of \<open>sp\<close> (the part before the checksum) and the computed checksum, which goes to
  \<open>out_checksum\<close> when that is given. \<open>std::equal\<close> compares the eight characters of the
  computed checksum with the eight characters found.
\<close>

definition CheckChecksum :: "string \<Rightarrow> bool \<Rightarrow> checksum_error + (string \<times> string)" where
  "CheckChecksum sp require_checksum =
     (let check_split = Split sp (CHR ''#'')
      in if length check_split > 2 then Inl MultipleHashSymbols
         else if length check_split = 1 \<and> require_checksum then Inl MissingChecksum
         else if length check_split = 2 \<and> length (check_split ! 1) \<noteq> 8
         then Inl (ExpectedEightCharacters (length (check_split ! 1)))
         else (let checksum = DescriptorChecksum (check_split ! 0)
               in if checksum = [] then Inl InvalidCharactersInPayload
                  else if length check_split = 2 \<and> checksum \<noteq> check_split ! 1
                  then Inl (ChecksumMismatch (check_split ! 1) checksum)
                  else Inr (check_split ! 0, checksum)))"


section \<open>The checksum as the specification words it\<close>

text \<open>
  The second description of the checksum, written from the words of the specification
  (section 4.1), to be compared with \<^const>\<open>DescriptorChecksum\<close>, which follows the code.
  The state is a 40-bit word. \<open>spec_PolyMod\<close> shifts it left by 5 (the top five bits fall
  out), XORs the 5-bit value in, and XORs the constant number \<open>i\<close> in when bit \<open>i\<close> of the five
  bits that fell out is set.
\<close>

definition spec_generator :: "40 word list" where
  "spec_generator = [0xf5dee51989, 0xa9fdca3312, 0x1bab10e32d, 0x3706b1677a, 0x644d626ffd]"

definition spec_PolyMod :: "40 word \<Rightarrow> nat \<Rightarrow> 40 word" where
  "spec_PolyMod C v =
     foldl (XOR) (push_bit 5 C XOR word_of_nat v)
       (map (\<lambda>i. if bit (drop_bit 35 C) i then spec_generator ! i else 0) [0..<5])"

text \<open>The characters are taken in groups of three; the last group may have one or two.\<close>

fun triples :: "'a list \<Rightarrow> 'a list list" where
  "triples (a # b # c # rest) = [a, b, c] # triples rest"
| "triples [] = []"
| "triples [a] = [[a]]"
| "triples [a, b] = [[a, b]]"

text \<open>A group of positions gives one symbol \<open>p & 31\<close> for each position, and then the group
  symbol, accumulated as \<open>cls \<leftarrow> cls * 3 + (p >> 5)\<close>.\<close>

definition group_symbols :: "nat list \<Rightarrow> nat list" where
  "group_symbols g = map (\<lambda>p. p mod 32) g @ [foldl (\<lambda>cls p. cls * 3 + p div 32) 0 g]"

text \<open>The position of a character of the alphabet: the number of characters before it.\<close>

definition spec_position :: "char \<Rightarrow> nat" where
  "spec_position ch = length (takeWhile (\<lambda>c. c \<noteq> ch) INPUT_CHARSET)"

definition spec_state :: "string \<Rightarrow> 40 word" where
  "spec_state s =
     foldl spec_PolyMod 1
       (concat (map group_symbols (triples (map spec_position s))) @ replicate 8 0) XOR 1"

definition spec_slice :: "40 word \<Rightarrow> nat \<Rightarrow> nat" where
  "spec_slice C j = unat (take_bit 5 (drop_bit (5 * (7 - j)) C))"

definition spec_DescriptorChecksum :: "string \<Rightarrow> string" where
  "spec_DescriptorChecksum s =
     (if set s \<subseteq> set INPUT_CHARSET
      then map (\<lambda>j. CHECKSUM_CHARSET ! spec_slice (spec_state s) j) [0..<8]
      else [])"


section \<open>Auxiliary notions for the checksum proofs\<close>

text \<open>The symbols of a string, the state after a run over the symbols of a string followed
  by further symbols, the step of \<open>spec_PolyMod\<close> without a value (multiplication by \<open>x\<close>
  modulo the generator), and the words that fit in five bits.\<close>

definition symbol_stream :: "string \<Rightarrow> nat list" where
  "symbol_stream s = concat (map group_symbols (triples (map spec_position s)))"

definition symbol_run :: "40 word \<Rightarrow> string \<Rightarrow> nat list \<Rightarrow> 40 word" where
  "symbol_run C s zs = foldl spec_PolyMod C (symbol_stream s @ zs)"

definition Lshift :: "40 word \<Rightarrow> 40 word" where "Lshift C = spec_PolyMod C 0"

definition small5 :: "40 word \<Rightarrow> bool" where
  "small5 w \<longleftrightarrow> take_bit 5 w = w"


section \<open>Parsing \<open>multi\<close>, \<open>sortedmulti\<close>, \<open>multi_a\<close> and \<open>sortedmulti_a\<close>\<close>

datatype ParseScriptContext = TOP | P2SH | P2WPKH | P2WSH | P2TR

text \<open>Constants of \<open>script/script.h\<close>, which is not among the sources; the values are the
  ones the specification gives (20 keys, 999 keys, 520 bytes).\<close>

definition MAX_PUBKEYS_PER_MULTISIG :: nat where "MAX_PUBKEYS_PER_MULTISIG = 20"
definition MAX_PUBKEYS_PER_MULTI_A :: nat where "MAX_PUBKEYS_PER_MULTI_A = 999"
definition MAX_SCRIPT_ELEMENT_SIZE :: nat where "MAX_SCRIPT_ELEMENT_SIZE = 520"

datatype multi_error =
    ThresholdNotValid
  | MultiKeyError
  | KeyCountMultisig nat
  | KeyCountMultiA nat
  | ThresholdZero
  | ThresholdTooLarge nat nat
  | BareMultisigTooMany nat
  | P2SHTooLarge nat
  | MultiWrongContext
  | MultiAWrongContext
  | NotMulti

datatype 'p multi_descriptor =
    MultisigDescriptor int "'p list" bool
  | MultiADescriptor int "'p list" bool

text \<open>
  The \<open>while (expr.size())\<close> loop of \<open>ParseScript\<close>. The text of the expression is taken as
  already split at the commas: \<open>args\<close> is the list of key arguments. \<open>parse_pubkey\<close> stands for
  \<open>ParsePubkey\<close> (whose result depends on key validity) and \<open>get_size\<close> for
  \<open>PubkeyProvider::GetSize\<close>. The state is \<open>(script_size, providers, key_exp_index)\<close>.
\<close>

fun multi_keys_loop ::
  "(32 word \<Rightarrow> 'a \<Rightarrow> ParseScriptContext \<Rightarrow> 'p option) \<Rightarrow> ('p \<Rightarrow> nat) \<Rightarrow> ParseScriptContext \<Rightarrow>
   nat \<Rightarrow> 'p list \<Rightarrow> 32 word \<Rightarrow> 'a list \<Rightarrow> multi_error + (nat \<times> 'p list \<times> 32 word)" where
  "multi_keys_loop parse_pubkey get_size ctx script_size providers key_exp_index [] =
     Inr (script_size, providers, key_exp_index)"
| "multi_keys_loop parse_pubkey get_size ctx script_size providers key_exp_index (arg # rest) =
     (case parse_pubkey key_exp_index arg ctx of
        None \<Rightarrow> Inl MultiKeyError
      | Some pk \<Rightarrow>
          multi_keys_loop parse_pubkey get_size ctx (script_size + (get_size pk + 1))
            (providers @ [pk]) (key_exp_index + 1) rest)"

text \<open>The \<open>multi\<close> part of \<open>ParseScript\<close> (lines 1135 to 1201), for a function name
  \<open>fname\<close>, the result \<open>threshold\<close> of \<open>ParseUInt32\<close> on the first argument and the key
  arguments. \<open>NotMulti\<close> stands for falling through to the forms that follow.\<close>

definition ParseScript_multi ::
  "(32 word \<Rightarrow> 'a \<Rightarrow> ParseScriptContext \<Rightarrow> 'p option) \<Rightarrow> ('p \<Rightarrow> nat) \<Rightarrow> 32 word \<Rightarrow>
   ParseScriptContext \<Rightarrow> string \<Rightarrow> 32 word option \<Rightarrow> 'a list \<Rightarrow>
   multi_error + ('p multi_descriptor \<times> 32 word)" where
  "ParseScript_multi parse_pubkey get_size key_exp_index ctx fname threshold args =
     (let multi = (fname = ''multi'');
          sortedmulti = (\<not> multi \<and> fname = ''sortedmulti'');
          multi_a = (\<not> (multi \<or> sortedmulti) \<and> fname = ''multi_a'');
          sortedmulti_a = (\<not> (multi \<or> sortedmulti \<or> multi_a) \<and> fname = ''sortedmulti_a'')
      in if ((ctx = TOP \<or> ctx = P2SH \<or> ctx = P2WSH) \<and> (multi \<or> sortedmulti)) \<or>
            (ctx = P2TR \<and> (multi_a \<or> sortedmulti_a))
         then (case threshold of
                 None \<Rightarrow> Inl ThresholdNotValid
               | Some thres \<Rightarrow>
                   (case multi_keys_loop parse_pubkey get_size ctx 0 [] key_exp_index args of
                      Inl e \<Rightarrow> Inl e
                    | Inr (script_size, providers, key_exp_index') \<Rightarrow>
                        if (multi \<or> sortedmulti) \<and>
                           (providers = [] \<or> length providers > MAX_PUBKEYS_PER_MULTISIG)
                        then Inl (KeyCountMultisig (length providers))
                        else if (multi_a \<or> sortedmulti_a) \<and>
                           (providers = [] \<or> length providers > MAX_PUBKEYS_PER_MULTI_A)
                        then Inl (KeyCountMultiA (length providers))
                        else if thres < 1 then Inl ThresholdZero
                        else if unat thres > length providers
                        then Inl (ThresholdTooLarge (unat thres) (length providers))
                        else if ctx = TOP \<and> length providers > 3
                        then Inl (BareMultisigTooMany (length providers))
                        else if ctx = P2SH \<and> script_size + 3 > MAX_SCRIPT_ELEMENT_SIZE
                        then Inl (P2SHTooLarge (script_size + 3))
                        else if multi \<or> sortedmulti
                        then Inr (MultisigDescriptor (sint thres) providers sortedmulti, key_exp_index')
                        else Inr (MultiADescriptor (sint thres) providers sortedmulti_a, key_exp_index')))
         else if multi \<or> sortedmulti then Inl MultiWrongContext
         else if multi_a \<or> sortedmulti_a then Inl MultiAWrongContext
         else Inl NotMulti)"


section \<open>Descriptor cache (script/descriptor.cpp)\<close>

text \<open>
  The four stores of \<open>DescriptorCache\<close> are \<open>std::unordered_map\<close>s keyed by \<open>uint32_t\<close>. An
  unordered map is modelled by an association list: \<open>find\<close> is \<^const>\<open>map_of\<close>,
  \<open>m[k] = v\<close> is \<^const>\<open>AList.update\<close>, and a range-for loop visits the pairs in the order of
  the list (the order of an unordered map is not specified, so theorems are stated for
  every order). \<open>'x\<close> stands for \<open>CExtPubKey\<close> and \<open>'a\<close> for \<open>StealthAddress\<close>.
\<close>

type_synonym 'v u32map = "(32 word \<times> 'v) list"

record ('x, 'a) DescriptorCache =
  m_parent_xpubs :: "'x u32map"
  m_derived_xpubs :: "('x u32map) u32map"
  m_last_hardened_xpubs :: "'x u32map"
  m_addresses :: "'a u32map"

definition empty_cache :: "('x, 'a) DescriptorCache" where
  "empty_cache = \<lparr>m_parent_xpubs = [], m_derived_xpubs = [], m_last_hardened_xpubs = [],
     m_addresses = []\<rparr>"

definition CacheParentExtPubKey ::
  "32 word \<Rightarrow> 'x \<Rightarrow> ('x, 'a) DescriptorCache \<Rightarrow> ('x, 'a) DescriptorCache" where
  "CacheParentExtPubKey key_exp_pos xpub c =
     c\<lparr>m_parent_xpubs := AList.update key_exp_pos xpub (m_parent_xpubs c)\<rparr>"

text \<open>\<open>auto& xpubs = m_derived_xpubs[key_exp_pos]\<close> creates an empty inner map when the key
  is new.\<close>

definition CacheDerivedExtPubKey ::
  "32 word \<Rightarrow> 32 word \<Rightarrow> 'x \<Rightarrow> ('x, 'a) DescriptorCache \<Rightarrow> ('x, 'a) DescriptorCache" where
  "CacheDerivedExtPubKey key_exp_pos der_index xpub c =
     (let xpubs = (case map_of (m_derived_xpubs c) key_exp_pos of None \<Rightarrow> [] | Some m \<Rightarrow> m)
      in c\<lparr>m_derived_xpubs :=
             AList.update key_exp_pos (AList.update der_index xpub xpubs) (m_derived_xpubs c)\<rparr>)"

definition CacheLastHardenedExtPubKey ::
  "32 word \<Rightarrow> 'x \<Rightarrow> ('x, 'a) DescriptorCache \<Rightarrow> ('x, 'a) DescriptorCache" where
  "CacheLastHardenedExtPubKey key_exp_pos xpub c =
     c\<lparr>m_last_hardened_xpubs := AList.update key_exp_pos xpub (m_last_hardened_xpubs c)\<rparr>"

definition CacheMWEBAddress ::
  "32 word \<Rightarrow> 'a \<Rightarrow> ('x, 'a) DescriptorCache \<Rightarrow> ('x, 'a) DescriptorCache" where
  "CacheMWEBAddress mweb_index address c =
     c\<lparr>m_addresses := AList.update mweb_index address (m_addresses c)\<rparr>"

text \<open>The getters return \<open>false\<close> as \<open>None\<close> and the value written to the out-parameter as
  \<open>Some\<close>.\<close>

definition GetCachedParentExtPubKey :: "('x, 'a) DescriptorCache \<Rightarrow> 32 word \<Rightarrow> 'x option" where
  "GetCachedParentExtPubKey c key_exp_pos = map_of (m_parent_xpubs c) key_exp_pos"

definition GetCachedDerivedExtPubKey ::
  "('x, 'a) DescriptorCache \<Rightarrow> 32 word \<Rightarrow> 32 word \<Rightarrow> 'x option" where
  "GetCachedDerivedExtPubKey c key_exp_pos der_index =
     (case map_of (m_derived_xpubs c) key_exp_pos of
        None \<Rightarrow> None
      | Some m \<Rightarrow> map_of m der_index)"

definition GetCachedLastHardenedExtPubKey :: "('x, 'a) DescriptorCache \<Rightarrow> 32 word \<Rightarrow> 'x option" where
  "GetCachedLastHardenedExtPubKey c key_exp_pos = map_of (m_last_hardened_xpubs c) key_exp_pos"

definition GetCachedMWEBAddress :: "('x, 'a) DescriptorCache \<Rightarrow> 32 word \<Rightarrow> 'a option" where
  "GetCachedMWEBAddress c mweb_index = map_of (m_addresses c) mweb_index"

datatype merge_error =
    ParentXpubMismatch
  | DerivedXpubMismatch
  | LastHardenedXpubMismatch
  | MWEBAddressMismatch

text \<open>
  The four loops of \<open>MergeAndDiff\<close> have one shape: look the key up in \<open>*this\<close>; when it is
  there, throw if the value differs and \<open>continue\<close> otherwise; when it is not, store the pair
  in \<open>*this\<close> and in \<open>diff\<close>. \<open>merge_loop\<close> is that loop for a getter \<open>get\<close>, a setter \<open>put\<close>
  and the error \<open>err\<close>. The state is the pair \<open>(this, diff)\<close>; a \<open>throw\<close> is \<open>Inl\<close>, and carries
  \<open>*this\<close> as the exception leaves it.
\<close>

fun merge_loop ::
  "('c \<Rightarrow> 'k \<Rightarrow> 'v option) \<Rightarrow> ('k \<Rightarrow> 'v \<Rightarrow> 'c \<Rightarrow> 'c) \<Rightarrow> merge_error \<Rightarrow>
   'c \<Rightarrow> 'c \<Rightarrow> ('k \<times> 'v) list \<Rightarrow> (merge_error \<times> 'c) + ('c \<times> 'c)" where
  "merge_loop get put err this diff [] = Inr (this, diff)"
| "merge_loop get put err this diff ((k, v) # rest) =
     (case get this k of
        Some x \<Rightarrow> if x \<noteq> v then Inl (err, this) else merge_loop get put err this diff rest
      | None \<Rightarrow> merge_loop get put err (put k v this) (put k v diff) rest)"

text \<open>The second loop is nested: for every \<open>key_exp_pos\<close> of the other cache, the inner loop
  over its \<open>der_index\<close> entries.\<close>

fun merge_derived_loop ::
  "('x, 'a) DescriptorCache \<Rightarrow> ('x, 'a) DescriptorCache \<Rightarrow> ('x u32map) u32map \<Rightarrow>
   (merge_error \<times> ('x, 'a) DescriptorCache) + (('x, 'a) DescriptorCache \<times> ('x, 'a) DescriptorCache)" where
  "merge_derived_loop this diff [] = Inr (this, diff)"
| "merge_derived_loop this diff ((key_exp_pos, inner) # rest) =
     (case merge_loop (\<lambda>c. GetCachedDerivedExtPubKey c key_exp_pos)
             (CacheDerivedExtPubKey key_exp_pos) DerivedXpubMismatch this diff inner of
        Inl e \<Rightarrow> Inl e
      | Inr (this', diff') \<Rightarrow> merge_derived_loop this' diff' rest)"

text \<open>\<open>DescriptorCache::MergeAndDiff\<close>: the result is \<open>*this\<close> after the call and the
  returned \<open>diff\<close>.\<close>

definition MergeAndDiff ::
  "('x, 'a) DescriptorCache \<Rightarrow> ('x, 'a) DescriptorCache \<Rightarrow>
   (merge_error \<times> ('x, 'a) DescriptorCache) + (('x, 'a) DescriptorCache \<times> ('x, 'a) DescriptorCache)" where
  "MergeAndDiff this other =
     (case merge_loop GetCachedParentExtPubKey CacheParentExtPubKey ParentXpubMismatch
             this empty_cache (m_parent_xpubs other) of
        Inl e \<Rightarrow> Inl e
      | Inr (this1, diff1) \<Rightarrow>
     (case merge_derived_loop this1 diff1 (m_derived_xpubs other) of
        Inl e \<Rightarrow> Inl e
      | Inr (this2, diff2) \<Rightarrow>
     (case merge_loop GetCachedLastHardenedExtPubKey CacheLastHardenedExtPubKey
             LastHardenedXpubMismatch this2 diff2 (m_last_hardened_xpubs other) of
        Inl e \<Rightarrow> Inl e
      | Inr (this3, diff3) \<Rightarrow>
        merge_loop GetCachedMWEBAddress CacheMWEBAddress MWEBAddressMismatch
          this3 diff3 (m_addresses other))))"

text \<open>The caches as finite maps, for stating what a merge does: the three simple stores
  by key, the derived store by the pair of keys.\<close>

definition derived_view :: "('x, 'a) DescriptorCache \<Rightarrow> 32 word \<times> 32 word \<Rightarrow> 'x option" where
  "derived_view c = (\<lambda>(k, i). GetCachedDerivedExtPubKey c k i)"

text \<open>A store is well formed when no key occurs twice, as in every \<open>std::unordered_map\<close>.\<close>

definition wf_cache :: "('x, 'a) DescriptorCache \<Rightarrow> bool" where
  "wf_cache c \<longleftrightarrow>
     distinct (map fst (m_parent_xpubs c)) \<and>
     distinct (map fst (m_derived_xpubs c)) \<and>
     list_all (\<lambda>(k, inner). distinct (map fst inner)) (m_derived_xpubs c) \<and>
     distinct (map fst (m_last_hardened_xpubs c)) \<and>
     distinct (map fst (m_addresses c))"

text \<open>Two caches disagree when some key has a value in both and the values differ.\<close>

definition cache_conflict :: "('x, 'a) DescriptorCache \<Rightarrow> ('x, 'a) DescriptorCache \<Rightarrow> bool" where
  "cache_conflict a b \<longleftrightarrow>
     (\<exists>k x y. GetCachedParentExtPubKey a k = Some x \<and> GetCachedParentExtPubKey b k = Some y \<and> x \<noteq> y) \<or>
     (\<exists>k i x y. GetCachedDerivedExtPubKey a k i = Some x \<and> GetCachedDerivedExtPubKey b k i = Some y \<and> x \<noteq> y) \<or>
     (\<exists>k x y. GetCachedLastHardenedExtPubKey a k = Some x \<and>
        GetCachedLastHardenedExtPubKey b k = Some y \<and> x \<noteq> y) \<or>
     (\<exists>k x y. GetCachedMWEBAddress a k = Some x \<and> GetCachedMWEBAddress b k = Some y \<and> x \<noteq> y)"

text \<open>Auxiliary notions for the proofs: the pairs of a loop that collide with the map
  \<open>g\<close>, and the derived store as one list keyed by pairs.\<close>

definition loop_conflict :: "('k \<Rightarrow> 'v option) \<Rightarrow> ('k \<times> 'v) list \<Rightarrow> bool" where
  "loop_conflict g es \<longleftrightarrow> (\<exists>k v x. (k, v) \<in> set es \<and> g k = Some x \<and> x \<noteq> v)"

definition flatten_derived :: "('x u32map) u32map \<Rightarrow> ((32 word \<times> 32 word) \<times> 'x) list" where
  "flatten_derived outer = concat (map (\<lambda>(k, inner). map (\<lambda>(i, x). ((k, i), x)) inner) outer)"


section \<open>The \<open>mweb\<close> descriptor (script/descriptor.cpp)\<close>

type_synonym bytes = "8 word list"

text \<open>\<open>KeyOriginInfo\<close> as \<open>descriptor.cpp\<close> uses it: a fingerprint and an \<open>hdkeypath\<close> with a
  \<open>path\<close> and an optional \<open>mweb_index\<close>.\<close>

record HDKeyPath =
  path :: "32 word list"
  mweb_index :: "32 word option"

record KeyOriginInfo =
  fingerprint :: bytes
  hdkeypath :: HDKeyPath

record CKey =
  keydata :: bytes
  fCompressed :: bool

datatype GenericAddress =
    ScriptAddress bytes
  | StealthAddress bytes bytes

text \<open>\<open>FlatSigningProvider\<close>: its \<open>std::map\<close>s as finite maps. \<open>emplace\<close> stores a pair only
  when the key is absent.\<close>

record FlatSigningProvider =
  scripts :: "bytes \<rightharpoonup> bytes"
  pubkeys :: "bytes \<rightharpoonup> bytes"
  origins :: "bytes \<rightharpoonup> bytes \<times> KeyOriginInfo"
  keys :: "bytes \<rightharpoonup> CKey"
  tr_trees :: "bytes \<rightharpoonup> bytes"

definition emplace :: "'k \<Rightarrow> 'v \<Rightarrow> ('k \<rightharpoonup> 'v) \<Rightarrow> ('k \<rightharpoonup> 'v)" where
  "emplace k v m = (case m k of None \<Rightarrow> m(k \<mapsto> v) | Some old \<Rightarrow> m)"

type_synonym Cache = "(bytes, bytes \<times> bytes) DescriptorCache"

text \<open>
  \<open>PubkeyProvider\<close> is an abstract class declared in \<open>script/pubkeyprovider.h\<close>, which is not
  among the sources. An object is the record of its virtual methods. A method with
  out-parameters returns them in \<open>Some\<close> when the C++ returns \<open>true\<close>; \<open>GetPubKey\<close> also
  returns the write cache, which it may fill. \<open>'sp\<close> is the type of signing providers.
\<close>

record 'sp PubkeyProvider =
  GetPubKey :: "int \<Rightarrow> 'sp \<Rightarrow> Cache option \<Rightarrow> Cache option \<Rightarrow>
                (bytes \<times> KeyOriginInfo) option \<times> Cache option"
  GetPrivKey :: "int \<Rightarrow> 'sp \<Rightarrow> CKey option"
  GetKeyOrigin :: "int \<Rightarrow> KeyOriginInfo option"
  ToString :: string
  ToPrivateString :: "'sp \<Rightarrow> string option"
  ToNormalizedString :: "'sp \<Rightarrow> Cache option \<Rightarrow> string option"
  IsRange :: bool

datatype EHashTag = ADDRESS

text \<open>
  The elliptic-curve and encoding collaborators (libmw, \<open>key.h\<close>, \<open>pubkey.h\<close>, \<open>key_io.h\<close>,
  \<open>util/strencodings.h\<close>), none of them among the sources, as a record of functions:
  \<^item> \<open>TaggedHash tag data\<close>: the hash of a \<open>Hasher(tag)\<close> that was fed \<open>data\<close>;
  \<^item> \<open>G_mul k\<close>: the scalar \<open>k\<close> times the generator; \<open>point_add\<close>, \<open>point_mul k P\<close>;
  \<^item> \<open>SecretKeys_Total a b\<close>: \<open>SecretKeys::From(a).Add(b).Total()\<close>;
  \<^item> \<open>CPubKey_GetID\<close>, \<open>PublicKey_GetID\<close>: the two \<open>GetID\<close> methods;
  \<^item> \<open>CKey_Set data compressed\<close>: the key after \<open>CKey::Set\<close>; \<open>CKey_GetPubKey\<close>;
  \<^item> \<open>EncodeSecret\<close> (the WIF encoding), \<open>HexStr\<close>, \<open>FormatHDKeypath\<close>, and \<open>format_i\<close> for
    \<open>strprintf("%i", ...)\<close> on a \<open>uint32_t\<close>;
  \<^item> \<open>GetScript\<close> for \<open>GenericAddress::GetScript\<close> and \<open>Merge a b\<close> for the provider \<open>a\<close>
    after \<open>a.Merge(b)\<close>.
\<close>

record ext =
  TaggedHash :: "EHashTag \<Rightarrow> bytes \<Rightarrow> bytes"
  G_mul :: "bytes \<Rightarrow> bytes"
  point_add :: "bytes \<Rightarrow> bytes \<Rightarrow> bytes"
  point_mul :: "bytes \<Rightarrow> bytes \<Rightarrow> bytes"
  SecretKeys_Total :: "bytes \<Rightarrow> bytes \<Rightarrow> bytes"
  CPubKey_GetID :: "bytes \<Rightarrow> bytes"
  PublicKey_GetID :: "bytes \<Rightarrow> bytes"
  CKey_Set :: "bytes \<Rightarrow> bool \<Rightarrow> CKey"
  CKey_GetPubKey :: "CKey \<Rightarrow> bytes"
  EncodeSecret :: "CKey \<Rightarrow> string"
  HexStr :: "bytes \<Rightarrow> string"
  FormatHDKeypath :: "HDKeyPath \<Rightarrow> string"
  format_i :: "32 word \<Rightarrow> string"
  GetScript :: "GenericAddress \<Rightarrow> bytes"
  Merge :: "FlatSigningProvider \<Rightarrow> FlatSigningProvider \<Rightarrow> FlatSigningProvider"

text \<open>Modelled from the spec: the \<open>Hasher\<close> and \<open>PublicKey\<close> classes of libmw are not among the
  sources. By the specification (4.4) the hash input is the 32-bit little-endian index
  followed by the scan secret, \<open>PublicKey::From(k)\<close> is \<open>k\<close> times the generator,
  \<open>P.Add(m)\<close> is \<open>P + m G\<close> and \<open>P.Mul(k)\<close> is \<open>k P\<close>.\<close>

definition u32_le :: "32 word \<Rightarrow> bytes" where
  "u32_le w = [ucast w, ucast (drop_bit 8 w), ucast (drop_bit 16 w), ucast (drop_bit 24 w)]"

definition Hasher_Append_u32_Append_hash :: "ext \<Rightarrow> EHashTag \<Rightarrow> 32 word \<Rightarrow> bytes \<Rightarrow> bytes" where
  "Hasher_Append_u32_Append_hash x tag n secret = TaggedHash x tag (u32_le n @ secret)"

definition PublicKey_From :: "ext \<Rightarrow> bytes \<Rightarrow> bytes" where
  "PublicKey_From x k = G_mul x k"

definition PublicKey_Add :: "ext \<Rightarrow> bytes \<Rightarrow> bytes \<Rightarrow> bytes" where
  "PublicKey_Add x P m = point_add x P (G_mul x m)"

definition PublicKey_Mul :: "ext \<Rightarrow> bytes \<Rightarrow> bytes \<Rightarrow> bytes" where
  "PublicKey_Mul x P k = point_mul x k P"

text \<open>An \<open>MWEBDescriptor\<close>, by the arguments of its constructor: \<open>m_pubkey_args\<close> is the
  vector of the two providers, \<open>MWEB_pubkey_args\<close> here.\<close>

record 'sp MWEBDescriptor =
  master_scan_pk_provider :: "'sp PubkeyProvider"
  spend_pk_provider :: "'sp PubkeyProvider"
  m_master_scan_secret :: bytes
  m_mweb_index :: "32 word option"

definition MWEB_pubkey_args :: "'sp MWEBDescriptor \<Rightarrow> 'sp PubkeyProvider list" where
  "MWEB_pubkey_args d = [master_scan_pk_provider d, spend_pk_provider d]"

text \<open>\<open>GetMasterSpendPubKey\<close>: \<open>PublicKey(spend_pubkey.begin())\<close> reads the 33 bytes of a
  compressed key.\<close>

definition GetMasterSpendPubKey ::
  "'sp MWEBDescriptor \<Rightarrow> 'sp \<Rightarrow> Cache option \<Rightarrow> Cache option \<Rightarrow> bytes option \<times> Cache option" where
  "GetMasterSpendPubKey d signing_provider read_cache write_cache =
     (case GetPubKey (MWEB_pubkey_args d ! 1) (-1) signing_provider read_cache write_cache of
        (None, wc) \<Rightarrow> (None, wc)
      | (Some (spend_pubkey, origin_info), wc) \<Rightarrow> (Some (take 33 spend_pubkey), wc))"

definition GetMasterSpendKey :: "'sp MWEBDescriptor \<Rightarrow> 'sp \<Rightarrow> bytes option" where
  "GetMasterSpendKey d signing_provider =
     (case GetPrivKey (MWEB_pubkey_args d ! 1) (-1) signing_provider of
        None \<Rightarrow> None
      | Some spend_key \<Rightarrow> Some (take 32 (keydata spend_key)))"

text \<open>
  \<open>MWEBDescriptor::ExpandHelper\<close>. The arguments \<open>output_scripts\<close>, \<open>out\<close> and \<open>write_cache\<close>
  are references that the function updates; the result is the returned \<open>bool\<close> with their
  values at the return. \<open>pos\<close> is an \<open>int\<close>; the \<open>uint32_t\<close> index is converted to it
  (\<^const>\<open>sint\<close>) and \<open>Append<uint32_t>(pos)\<close> converts back.
\<close>

definition MWEB_ExpandHelper ::
  "ext \<Rightarrow> 'sp MWEBDescriptor \<Rightarrow> int \<Rightarrow> 'sp \<Rightarrow> Cache option \<Rightarrow> GenericAddress list \<Rightarrow>
   FlatSigningProvider \<Rightarrow> Cache option \<Rightarrow>
   bool \<times> GenericAddress list \<times> FlatSigningProvider \<times> Cache option" where
  "MWEB_ExpandHelper x d pos0 provider read_cache output_scripts0 out write_cache =
     (let output_scripts = [];
          pos = (case m_mweb_index d of Some i \<Rightarrow> sint i | None \<Rightarrow> pos0)
      in if pos = -1 then
           (let master_scan_pk = PublicKey_From x (m_master_scan_secret d);
                out1 = out\<lparr>pubkeys := emplace (CPubKey_GetID x master_scan_pk) master_scan_pk (pubkeys out)\<rparr>;
                out2 = (case GetKeyOrigin (MWEB_pubkey_args d ! 0) (-1) of
                          Some master_scan_origin \<Rightarrow>
                            out1\<lparr>origins := emplace (CPubKey_GetID x master_scan_pk)
                                    (master_scan_pk, master_scan_origin) (origins out1)\<rparr>
                        | None \<Rightarrow> out1)
            in (True, output_scripts, out2, write_cache))
         else
           (case GetMasterSpendPubKey d provider read_cache write_cache of
              (None, wc) \<Rightarrow> (False, output_scripts, out, wc)
            | (Some master_spend_pubkey, wc) \<Rightarrow>
                if pos = -2 then
                  (let master_spend_pk = master_spend_pubkey;
                       out1 = out\<lparr>pubkeys := emplace (PublicKey_GetID x master_spend_pubkey)
                                  master_spend_pk (pubkeys out)\<rparr>;
                       out2 = (case GetKeyOrigin (MWEB_pubkey_args d ! 1) (-1) of
                                 Some master_spend_origin \<Rightarrow>
                                   out1\<lparr>origins := emplace (PublicKey_GetID x master_spend_pubkey)
                                           (master_spend_pk, master_spend_origin) (origins out1)\<rparr>
                               | None \<Rightarrow> out1)
                   in (True, output_scripts, out2, wc))
                else
                  (let mi = Hasher_Append_u32_Append_hash x ADDRESS (word_of_int pos)
                              (m_master_scan_secret d);
                       Bi = PublicKey_Add x master_spend_pubkey mi;
                       Ai = PublicKey_Mul x Bi (m_master_scan_secret d);
                       output_scripts = [StealthAddress Ai Bi];
                       address_key_id = PublicKey_GetID x Bi;
                       address_pk = Bi;
                       out1 = out\<lparr>pubkeys := emplace address_key_id address_pk (pubkeys out)\<rparr>;
                       out2 = (case GetKeyOrigin (MWEB_pubkey_args d ! 0) (-1) of
                                 Some master_scan_origin \<Rightarrow>
                                   (let key_origin = \<lparr>fingerprint = fingerprint master_scan_origin,
                                          hdkeypath = \<lparr>path = [], mweb_index = Some (word_of_int pos)\<rparr>\<rparr>
                                    in out1\<lparr>origins := emplace address_key_id (address_pk, key_origin)
                                              (origins out1)\<rparr>)
                               | None \<Rightarrow> out1)
                   in (True, output_scripts, out2, wc))))"

text \<open>\<open>MWEBDescriptor::Expand\<close> and \<open>ExpandFromCache\<close>.\<close>

definition MWEB_Expand ::
  "ext \<Rightarrow> 'sp MWEBDescriptor \<Rightarrow> int \<Rightarrow> 'sp \<Rightarrow> GenericAddress list \<Rightarrow>
   FlatSigningProvider \<Rightarrow> Cache option \<Rightarrow>
   bool \<times> GenericAddress list \<times> FlatSigningProvider \<times> Cache option" where
  "MWEB_Expand x d pos provider output_scripts out write_cache =
     MWEB_ExpandHelper x d pos provider None output_scripts out write_cache"

text \<open>\<open>MWEBDescriptor::ExpandPrivate\<close>; the result is \<open>out\<close> at the return.\<close>

definition MWEB_ExpandPrivate ::
  "ext \<Rightarrow> 'sp MWEBDescriptor \<Rightarrow> int \<Rightarrow> 'sp \<Rightarrow> FlatSigningProvider \<Rightarrow> FlatSigningProvider" where
  "MWEB_ExpandPrivate x d pos provider out =
     (if pos = -1 then
        (let master_scan_key = CKey_Set x (m_master_scan_secret d) True
         in out\<lparr>keys := emplace (CPubKey_GetID x (CKey_GetPubKey x master_scan_key))
                  master_scan_key (keys out)\<rparr>)
      else
        (case GetMasterSpendKey d provider of
           None \<Rightarrow> out
         | Some master_spend_secret \<Rightarrow>
             if pos = -2 then
               (let master_spend_key = CKey_Set x master_spend_secret True
                in out\<lparr>keys := emplace (CPubKey_GetID x (CKey_GetPubKey x master_spend_key))
                         master_spend_key (keys out)\<rparr>)
             else
               (let mi = Hasher_Append_u32_Append_hash x ADDRESS (word_of_int pos)
                           (m_master_scan_secret d);
                    secret_key = SecretKeys_Total x master_spend_secret mi;
                    key = CKey_Set x secret_key True
                in out\<lparr>keys := emplace (CPubKey_GetID x (CKey_GetPubKey x key)) key (keys out)\<rparr>)))"

text \<open>
  Stringification. \<open>arg\<close> is a pointer (\<open>None\<close> is \<open>nullptr\<close>); the result is \<open>Str out\<close> for
  \<open>true\<close>, \<open>Fail\<close> for \<open>false\<close>, and \<open>NullDeref\<close> where the C++ would dereference \<open>nullptr\<close>.
  The \<open>LogPrintf\<close> call only writes to the log and is left out.
\<close>

datatype StringType = PUBLIC | PRIVATE | NORMALIZED

datatype str_result = Str string | Fail | NullDeref

definition MWEB_ToStringSubScriptHelper :: "ext \<Rightarrow> 'sp MWEBDescriptor \<Rightarrow> string \<Rightarrow> string" where
  "MWEB_ToStringSubScriptHelper x d ret =
     (case m_mweb_index d of Some i \<Rightarrow> format_i x i | None \<Rightarrow> ret)"

definition MWEB_ToStringHelper ::
  "ext \<Rightarrow> 'sp MWEBDescriptor \<Rightarrow> 'sp option \<Rightarrow> StringType \<Rightarrow> Cache option \<Rightarrow> str_result" where
  "MWEB_ToStringHelper x d arg type cache =
     (let scan =
            (case type of
               PRIVATE \<Rightarrow>
                 (case arg of
                    None \<Rightarrow> NullDeref
                  | Some a \<Rightarrow>
                      (case ToPrivateString (MWEB_pubkey_args d ! 0) a of
                         None \<Rightarrow> Fail
                       | Some s \<Rightarrow> Str s))
             | _ \<Rightarrow>
                 (let master_scan_key = CKey_Set x (m_master_scan_secret d) True;
                      origin_str =
                        (case GetKeyOrigin (MWEB_pubkey_args d ! 0) (-1) of
                           Some origin_info \<Rightarrow>
                             ''['' @ HexStr x (fingerprint origin_info) @
                             FormatHDKeypath x (hdkeypath origin_info) @ '']''
                         | None \<Rightarrow> [])
                  in Str (origin_str @ EncodeSecret x master_scan_key)))
      in case scan of
           Fail \<Rightarrow> Fail
         | NullDeref \<Rightarrow> NullDeref
         | Str scan_key_str \<Rightarrow>
             (let spend =
                    (case type of
                       NORMALIZED \<Rightarrow>
                         (case arg of
                            None \<Rightarrow> NullDeref
                          | Some a \<Rightarrow>
                              (case ToNormalizedString (MWEB_pubkey_args d ! 1) a cache of
                                 None \<Rightarrow> Fail
                               | Some s \<Rightarrow> Str s))
                     | PRIVATE \<Rightarrow>
                         (case arg of
                            None \<Rightarrow> NullDeref
                          | Some a \<Rightarrow>
                              (case ToPrivateString (MWEB_pubkey_args d ! 1) a of
                                 None \<Rightarrow> Fail
                               | Some s \<Rightarrow> Str s))
                     | PUBLIC \<Rightarrow> Str (ToString (MWEB_pubkey_args d ! 1)))
              in case spend of
                   Fail \<Rightarrow> Fail
                 | NullDeref \<Rightarrow> NullDeref
                 | Str spend_key_str \<Rightarrow>
                     (let subscript0 = MWEB_ToStringSubScriptHelper x d [];
                          subscript = (if subscript0 \<noteq> [] then CHR '','' # subscript0 else subscript0)
                      in Str (''mweb('' @ scan_key_str @ '','' @ spend_key_str @ subscript @ '')''))))"

text \<open>\<open>DescriptorImpl::ToString\<close> and \<open>ToNormalizedString\<close> on an \<open>mweb\<close> descriptor: the
  helper's result with the checksum added. When the helper fails, \<open>ret\<close> (empty) and \<open>out\<close>
  (the caller's string \<open>out0\<close>) keep their value.\<close>

definition MWEB_ToString :: "ext \<Rightarrow> 'sp MWEBDescriptor \<Rightarrow> str_result" where
  "MWEB_ToString x d =
     (case MWEB_ToStringHelper x d None PUBLIC None of
        Str ret \<Rightarrow> Str (AddChecksum ret)
      | Fail \<Rightarrow> Str (AddChecksum [])
      | NullDeref \<Rightarrow> NullDeref)"

definition MWEB_ToNormalizedString ::
  "ext \<Rightarrow> 'sp MWEBDescriptor \<Rightarrow> 'sp \<Rightarrow> string \<Rightarrow> Cache option \<Rightarrow> bool \<times> str_result" where
  "MWEB_ToNormalizedString x d arg out0 cache =
     (case MWEB_ToStringHelper x d (Some arg) NORMALIZED cache of
        Str out \<Rightarrow> (True, Str (AddChecksum out))
      | Fail \<Rightarrow> (False, Str (AddChecksum out0))
      | NullDeref \<Rightarrow> (False, NullDeref))"


section \<open>Expansion of a descriptor (\<open>DescriptorImpl::ExpandHelper\<close>)\<close>

text \<open>
  A descriptor node of the base class: its key providers, its name, its sub-descriptors
  and its virtual \<open>MakeScripts\<close>, which takes the public keys, the scripts of the
  sub-descriptors and \<open>out\<close>, and returns the addresses with \<open>out\<close> as it leaves it.
\<close>

datatype 'sp DescriptorImpl =
  DescriptorImpl
    (m_pubkey_args: "'sp PubkeyProvider list")
    (m_name: string)
    (m_subdescriptor_args: "'sp DescriptorImpl list")
    (MakeScripts: "bytes list \<Rightarrow> bytes list \<Rightarrow> FlatSigningProvider \<Rightarrow>
                   GenericAddress list \<times> FlatSigningProvider")

text \<open>The result of a call: \<open>Aborted\<close> when an \<open>assert\<close> fails, else the returned \<open>bool\<close> with
  \<open>output_scripts\<close>, \<open>out\<close> and the write cache at the return.\<close>

datatype expand_result =
    Aborted
  | Returned bool "GenericAddress list" FlatSigningProvider "Cache option"

datatype subs_result =
    SubsAborted
  | SubsFailed "Cache option"
  | SubsDone "bytes list" FlatSigningProvider "Cache option"

text \<open>The first loop: \<open>GetPubKey\<close> of every provider into \<open>entries\<close>; \<open>None\<close> is the
  \<open>return false\<close>.\<close>

fun expand_pubkeys ::
  "'sp PubkeyProvider list \<Rightarrow> int \<Rightarrow> 'sp \<Rightarrow> Cache option \<Rightarrow> Cache option \<Rightarrow>
   (bytes \<times> KeyOriginInfo) list \<Rightarrow> (bytes \<times> KeyOriginInfo) list option \<times> Cache option" where
  "expand_pubkeys [] pos arg read_cache write_cache entries = (Some entries, write_cache)"
| "expand_pubkeys (p # ps) pos arg read_cache write_cache entries =
     (case GetPubKey p pos arg read_cache write_cache of
        (None, wc) \<Rightarrow> (None, wc)
      | (Some e, wc) \<Rightarrow> expand_pubkeys ps pos arg read_cache wc (entries @ [e]))"

text \<open>The last loop: the keys of \<open>entries\<close> into the vector \<open>pubkeys\<close> (here
  \<open>pubkey_list\<close>) and their origins into \<open>out.origins\<close>.\<close>

fun expand_origins ::
  "ext \<Rightarrow> (bytes \<times> KeyOriginInfo) list \<Rightarrow> bytes list \<Rightarrow> FlatSigningProvider \<Rightarrow>
   bytes list \<times> FlatSigningProvider" where
  "expand_origins x [] pubkey_list out = (pubkey_list, out)"
| "expand_origins x (entry # entries) pubkey_list out =
     expand_origins x entries (pubkey_list @ [fst entry])
       (out\<lparr>origins := emplace (CPubKey_GetID x (fst entry)) (fst entry, snd entry) (origins out)\<rparr>)"

text \<open>\<open>ExpandHelper\<close>, with the loop over the sub-descriptors as \<open>expand_subs\<close> on the
  state \<open>(subscripts, subprovider, write_cache)\<close>. A fresh \<open>FlatSigningProvider\<close> has empty
  maps.\<close>

fun ExpandHelper ::
  "ext \<Rightarrow> 'sp DescriptorImpl \<Rightarrow> int \<Rightarrow> 'sp \<Rightarrow> Cache option \<Rightarrow> GenericAddress list \<Rightarrow>
   FlatSigningProvider \<Rightarrow> Cache option \<Rightarrow> expand_result"
and expand_subs ::
  "ext \<Rightarrow> 'sp DescriptorImpl list \<Rightarrow> int \<Rightarrow> 'sp \<Rightarrow> Cache option \<Rightarrow> bytes list \<Rightarrow>
   FlatSigningProvider \<Rightarrow> Cache option \<Rightarrow> subs_result" where
  "ExpandHelper x (DescriptorImpl pubkey_args nm subdescriptor_args make_scripts)
     pos arg read_cache output_scripts out write_cache =
     (case expand_pubkeys pubkey_args pos arg read_cache write_cache [] of
        (None, wc) \<Rightarrow> Returned False output_scripts out wc
      | (Some entries, wc) \<Rightarrow>
          (case expand_subs x subdescriptor_args pos arg read_cache []
                  \<lparr>scripts = Map.empty, pubkeys = Map.empty, origins = Map.empty,
                   keys = Map.empty, tr_trees = Map.empty\<rparr> wc of
             SubsAborted \<Rightarrow> Aborted
           | SubsFailed wc' \<Rightarrow> Returned False output_scripts out wc'
           | SubsDone subscripts subprovider wc' \<Rightarrow>
               (let out1 = Merge x out subprovider;
                    (pubkey_list, out2) = expand_origins x entries [] out1;
                    (output_scripts', out3) = make_scripts pubkey_list subscripts out2
                in Returned True output_scripts' out3 wc')))"
| "expand_subs x [] pos arg read_cache subscripts subprovider write_cache =
     SubsDone subscripts subprovider write_cache"
| "expand_subs x (subarg # rest) pos arg read_cache subscripts subprovider write_cache =
     (case ExpandHelper x subarg pos arg read_cache [] subprovider write_cache of
        Aborted \<Rightarrow> SubsAborted
      | Returned ok outscripts subprovider' wc \<Rightarrow>
          if \<not> ok then SubsFailed wc
          else if length outscripts \<noteq> 1 then SubsAborted
          else expand_subs x rest pos arg read_cache
                 (subscripts @ [GetScript x (outscripts ! 0)]) subprovider' wc)"

text \<open>\<open>DescriptorImpl::Expand\<close>.\<close>

definition Expand ::
  "ext \<Rightarrow> 'sp DescriptorImpl \<Rightarrow> int \<Rightarrow> 'sp \<Rightarrow> GenericAddress list \<Rightarrow> FlatSigningProvider \<Rightarrow>
   Cache option \<Rightarrow> expand_result" where
  "Expand x d pos provider output_scripts out write_cache =
     ExpandHelper x d pos provider None output_scripts out write_cache"


section \<open>PSBT deserialization (psbt.h)\<close>

subsection \<open>The stream and the errors\<close>

text \<open>
  After the magic bytes, every read of the three \<open>Unserialize\<close> functions is the read of one
  length-prefixed vector: a key (\<open>s >> key\<close>), a byte vector or a script (\<open>s >> sig\<close>,
  \<open>s >> redeem_script\<close>), or a value that \<open>UnserializeFromVector\<close> decodes from a vector whose
  length it checks. \<open>serialize.h\<close> and \<open>UnserializeFromVector\<close> (\<open>script/sign.h\<close>) are not among the
  sources, so the framing is taken as the spec words it, "a stream of (length-prefixed key,
  length-prefixed value) records terminated by a zero-length key": the stream is the list of
  its vectors, \<open>s.empty()\<close> is the empty list, and a read from the empty stream throws. The
  decoders of the values are parameters (\<open>psbt_ext\<close>).

  \<open>failure msg\<close> is \<open>throw std::ios_base::failure(msg)\<close>; \<open>stream_failure\<close> is an exception of the
  stream or of a decoder; \<open>out_of_range\<close> is an index past the end of a vector.
\<close>

type_synonym stream = "bytes list"

datatype psbt_error = failure string | stream_failure | out_of_range

definition and_then :: "'e + 'a \<Rightarrow> ('a \<Rightarrow> 'e + 'b) \<Rightarrow> 'e + 'b" where
  "and_then r f = (case r of Inl e \<Rightarrow> Inl e | Inr a \<Rightarrow> f a)"

definition read_vector :: "stream \<Rightarrow> psbt_error + (bytes \<times> stream)" where
  "read_vector s = (case s of [] \<Rightarrow> Inl stream_failure | v # rest \<Rightarrow> Inr (v, rest))"

definition UnserializeFromVector ::
  "(bytes \<Rightarrow> 'a option) \<Rightarrow> stream \<Rightarrow> psbt_error + ('a \<times> stream)" where
  "UnserializeFromVector decode s =
     (case s of
        [] \<Rightarrow> Inl stream_failure
      | v # rest \<Rightarrow> (case decode v of None \<Rightarrow> Inl stream_failure | Some a \<Rightarrow> Inr (a, rest)))"

subsection \<open>Constants\<close>

definition PSBT_MAGIC_BYTES :: bytes where
  "PSBT_MAGIC_BYTES = [0x70, 0x73, 0x62, 0x74, 0xff]"

definition PSBT_GLOBAL_UNSIGNED_TX :: "8 word" where "PSBT_GLOBAL_UNSIGNED_TX = 0x00"
definition PSBT_GLOBAL_TX_VERSION :: "8 word" where "PSBT_GLOBAL_TX_VERSION = 0x02"
definition PSBT_GLOBAL_FALLBACK_LOCKTIME :: "8 word" where "PSBT_GLOBAL_FALLBACK_LOCKTIME = 0x03"
definition PSBT_GLOBAL_INPUT_COUNT :: "8 word" where "PSBT_GLOBAL_INPUT_COUNT = 0x04"
definition PSBT_GLOBAL_OUTPUT_COUNT :: "8 word" where "PSBT_GLOBAL_OUTPUT_COUNT = 0x05"
definition PSBT_GLOBAL_TX_MODIFIABLE :: "8 word" where "PSBT_GLOBAL_TX_MODIFIABLE = 0x06"
definition PSBT_GLOBAL_VERSION :: "8 word" where "PSBT_GLOBAL_VERSION = 0xFB"

definition PSBT_IN_NON_WITNESS_UTXO :: "8 word" where "PSBT_IN_NON_WITNESS_UTXO = 0x00"
definition PSBT_IN_WITNESS_UTXO :: "8 word" where "PSBT_IN_WITNESS_UTXO = 0x01"
definition PSBT_IN_PARTIAL_SIG :: "8 word" where "PSBT_IN_PARTIAL_SIG = 0x02"
definition PSBT_IN_SIGHASH :: "8 word" where "PSBT_IN_SIGHASH = 0x03"
definition PSBT_IN_REDEEMSCRIPT :: "8 word" where "PSBT_IN_REDEEMSCRIPT = 0x04"
definition PSBT_IN_WITNESSSCRIPT :: "8 word" where "PSBT_IN_WITNESSSCRIPT = 0x05"
definition PSBT_IN_BIP32_DERIVATION :: "8 word" where "PSBT_IN_BIP32_DERIVATION = 0x06"
definition PSBT_IN_SCRIPTSIG :: "8 word" where "PSBT_IN_SCRIPTSIG = 0x07"
definition PSBT_IN_SCRIPTWITNESS :: "8 word" where "PSBT_IN_SCRIPTWITNESS = 0x08"
definition PSBT_IN_PREVIOUS_TXID :: "8 word" where "PSBT_IN_PREVIOUS_TXID = 0x0e"
definition PSBT_IN_OUTPUT_INDEX :: "8 word" where "PSBT_IN_OUTPUT_INDEX = 0x0f"
definition PSBT_IN_SEQUENCE :: "8 word" where "PSBT_IN_SEQUENCE = 0x10"
definition PSBT_IN_REQUIRED_TIME_LOCKTIME :: "8 word" where
  "PSBT_IN_REQUIRED_TIME_LOCKTIME = 0x11"
definition PSBT_IN_REQUIRED_HEIGHT_LOCKTIME :: "8 word" where
  "PSBT_IN_REQUIRED_HEIGHT_LOCKTIME = 0x12"

definition PSBT_OUT_REDEEMSCRIPT :: "8 word" where "PSBT_OUT_REDEEMSCRIPT = 0x00"
definition PSBT_OUT_WITNESSSCRIPT :: "8 word" where "PSBT_OUT_WITNESSSCRIPT = 0x01"
definition PSBT_OUT_BIP32_DERIVATION :: "8 word" where "PSBT_OUT_BIP32_DERIVATION = 0x02"
definition PSBT_OUT_AMOUNT :: "8 word" where "PSBT_OUT_AMOUNT = 0x03"
definition PSBT_OUT_SCRIPT :: "8 word" where "PSBT_OUT_SCRIPT = 0x04"

definition PSBT_HIGHEST_VERSION :: "32 word" where "PSBT_HIGHEST_VERSION = 2"

text \<open>\<open>CPubKey::SIZE\<close>, \<open>CPubKey::COMPRESSED_SIZE\<close> (\<open>pubkey.h\<close>) and \<open>LOCKTIME_THRESHOLD\<close>
  (\<open>script/script.h\<close>), with the values the messages and the spec give them.\<close>

definition CPubKey_SIZE :: nat where "CPubKey_SIZE = 65"
definition CPubKey_COMPRESSED_SIZE :: nat where "CPubKey_COMPRESSED_SIZE = 33"
definition LOCKTIME_THRESHOLD :: "32 word" where "LOCKTIME_THRESHOLD = 500000000"

subsection \<open>The data\<close>

text \<open>The parts of \<open>primitives/transaction.h\<close> that \<open>psbt.h\<close> reads: a \<open>uint256\<close> is a 256-bit
  word (\<open>IsNull\<close> is being 0), a \<open>CScript\<close> its bytes, a \<open>CScriptWitness\<close> its stack.\<close>

record CTxIn =
  prevout_hash :: "256 word"
  prevout_n :: "32 word"
  scriptSig :: bytes
  nSequence :: "32 word"
  scriptWitness :: "bytes list"

record CTxOut =
  nValue :: "64 word"
  scriptPubKey :: bytes

record CMutableTransaction =
  vin :: "CTxIn list"
  vout :: "CTxOut list"
  nVersion :: "32 word"
  nLockTime :: "32 word"

text \<open>\<open>PSBTInput\<close>. The \<open>std::map\<close>s are maps: \<open>partial_sigs\<close> from the key id to the pair of the
  pubkey and the signature, \<open>hd_keypaths\<close> from the pubkey, \<open>unknown\<close> from the raw key.\<close>

record PSBTInput =
  non_witness_utxo :: "CMutableTransaction option"
  witness_utxo :: CTxOut
  redeem_script :: bytes
  witness_script :: bytes
  final_script_sig :: bytes
  final_script_witness :: "bytes list"
  hd_keypaths :: "bytes \<rightharpoonup> KeyOriginInfo"
  partial_sigs :: "bytes \<rightharpoonup> bytes \<times> bytes"
  prev_txid :: "256 word"
  prev_out :: "32 word option"
  sequence :: "32 word option"
  time_locktime :: "32 word option"
  height_locktime :: "32 word option"
  unknown :: "bytes \<rightharpoonup> bytes"
  sighash_type :: "32 word"
  m_psbt_version :: "32 word"

text \<open>\<open>PSBTInput(uint32_t version)\<close>: the default members (a null \<open>CTxOut\<close> has \<open>nValue = -1\<close>).\<close>

definition PSBTInput_new :: "32 word \<Rightarrow> PSBTInput" where
  "PSBTInput_new version =
     \<lparr>non_witness_utxo = None, witness_utxo = \<lparr>nValue = - 1, scriptPubKey = []\<rparr>,
      redeem_script = [], witness_script = [], final_script_sig = [],
      final_script_witness = [], hd_keypaths = Map.empty, partial_sigs = Map.empty,
      prev_txid = 0, prev_out = None, sequence = None, time_locktime = None,
      height_locktime = None, unknown = Map.empty, sighash_type = 0,
      m_psbt_version = version\<rparr>"

text \<open>\<open>PSBTOutput\<close>; the members that \<open>PSBTInput\<close> has too carry the prefix \<open>out_\<close>.\<close>

record PSBTOutput =
  out_redeem_script :: bytes
  out_witness_script :: bytes
  out_hd_keypaths :: "bytes \<rightharpoonup> KeyOriginInfo"
  amount :: "64 word option"
  script :: "bytes option"
  out_unknown :: "bytes \<rightharpoonup> bytes"
  out_m_psbt_version :: "32 word"

definition PSBTOutput_new :: "32 word \<Rightarrow> PSBTOutput" where
  "PSBTOutput_new version =
     \<lparr>out_redeem_script = [], out_witness_script = [], out_hd_keypaths = Map.empty,
      amount = None, script = None, out_unknown = Map.empty, out_m_psbt_version = version\<rparr>"

text \<open>\<open>PartiallySignedTransaction\<close>; its \<open>unknown\<close> is \<open>global_unknown\<close>, and \<open>m_tx_modifiable\<close>,
  a \<open>std::bitset<8>\<close>, is a byte.\<close>

record PartiallySignedTransaction =
  tx :: "CMutableTransaction option"
  tx_version :: "32 word option"
  fallback_locktime :: "32 word option"
  m_tx_modifiable :: "8 word option"
  inputs :: "PSBTInput list"
  outputs :: "PSBTOutput list"
  global_unknown :: "bytes \<rightharpoonup> bytes"
  m_version :: "32 word option"

definition PartiallySignedTransaction_new :: PartiallySignedTransaction where
  "PartiallySignedTransaction_new =
     \<lparr>tx = None, tx_version = None, fallback_locktime = None, m_tx_modifiable = None,
      inputs = [], outputs = [], global_unknown = Map.empty, m_version = None\<rparr>"

text \<open>
  What \<open>psbt.h\<close> calls and the sources do not define: the decoders that \<open>UnserializeFromVector\<close>
  runs on a value (a transaction without and with witness data, a \<open>CTxOut\<close>, an \<open>int\<close>, a
  \<open>uint32_t\<close>, a \<open>uint8_t\<close>, a \<open>CAmount\<close>, a compact size, a witness stack, a \<open>uint256\<close>, a
  key origin), \<open>CPubKey::IsFullyValid\<close> and \<open>CPubKey::GetID\<close>, \<open>CTransaction::GetHash\<close>, the
  validation of the key of a keypath entry, and \<open>CacheUnsignedTxPieces\<close> (\<open>psbt.cpp\<close>).
\<close>

record psbt_ext =
  decode_tx :: "bytes \<Rightarrow> CMutableTransaction option"
  decode_txref :: "bytes \<Rightarrow> CMutableTransaction option"
  decode_txout :: "bytes \<Rightarrow> CTxOut option"
  decode_int :: "bytes \<Rightarrow> 32 word option"
  decode_u32 :: "bytes \<Rightarrow> 32 word option"
  decode_u8 :: "bytes \<Rightarrow> 8 word option"
  decode_amount :: "bytes \<Rightarrow> 64 word option"
  decode_compact_size :: "bytes \<Rightarrow> 64 word option"
  decode_stack :: "bytes \<Rightarrow> bytes list option"
  decode_uint256 :: "bytes \<Rightarrow> 256 word option"
  decode_keypath :: "bytes \<Rightarrow> KeyOriginInfo option"
  IsFullyValid :: "bytes \<Rightarrow> bool"
  GetID :: "bytes \<Rightarrow> bytes"
  GetHash :: "CMutableTransaction \<Rightarrow> 256 word"
  keypath_key_valid :: "bytes \<Rightarrow> bool"
  CacheUnsignedTxPieces :: "PartiallySignedTransaction \<Rightarrow> PartiallySignedTransaction"

subsection \<open>Keys\<close>

text \<open>
  The test that opens the case of every field of singular nature:
  \<open>if (!key_lookup.emplace(key).second) throw duplicate; else if (key.size() != 1) throw long;\<close>
  and, for the fields of PSBTv2, \<open>else if (m_psbt_version == 0) throw not_allowed;\<close>. The result
  is \<open>key_lookup\<close> with the key in it.
\<close>

definition key_once :: "bytes set \<Rightarrow> bytes \<Rightarrow> string \<Rightarrow> string \<Rightarrow> psbt_error + bytes set" where
  "key_once key_lookup key duplicate long =
     (if key \<in> key_lookup then Inl (failure duplicate)
      else if length key \<noteq> 1 then Inl (failure long)
      else Inr (insert key key_lookup))"

definition key_once_v2 ::
  "bytes set \<Rightarrow> bytes \<Rightarrow> 32 word \<Rightarrow> string \<Rightarrow> string \<Rightarrow> string \<Rightarrow> psbt_error + bytes set" where
  "key_once_v2 key_lookup key psbt_version duplicate long not_allowed =
     (if key \<in> key_lookup then Inl (failure duplicate)
      else if length key \<noteq> 1 then Inl (failure long)
      else if psbt_version = 0 then Inl (failure not_allowed)
      else Inr (insert key key_lookup))"

text \<open>
  Modelled from the spec: \<open>DeserializeHDKeypaths\<close> is defined in \<open>script/sign.h\<close>, which is not
  among the sources. The spec: keypaths are "de-duplicated by key-data instead of by raw key".
  The entry is keyed by the pubkey that the key-data carries; a second entry for the same
  pubkey is fatal; otherwise the value is decoded and stored. What else the function checks
  of the key is the parameter \<open>keypath_key_valid\<close>.
\<close>

definition DeserializeHDKeypaths ::
  "psbt_ext \<Rightarrow> stream \<Rightarrow> bytes \<Rightarrow> (bytes \<rightharpoonup> KeyOriginInfo) \<Rightarrow>
   psbt_error + ((bytes \<rightharpoonup> KeyOriginInfo) \<times> stream)" where
  "DeserializeHDKeypaths x s key keypaths =
     (if \<not> keypath_key_valid x key then Inl (failure ''Invalid keypath key'')
      else if keypaths (tl key) \<noteq> None
      then Inl (failure ''Duplicate Key, pubkey derivation path already provided'')
      else and_then (UnserializeFromVector (decode_keypath x) s)
             (\<lambda>(keypath, s). Inr (emplace (tl key) keypath keypaths, s)))"

text \<open>The default case of the three switches: an entry of a type that is not known.\<close>

definition unknown_field ::
  "(bytes \<rightharpoonup> bytes) \<Rightarrow> bytes \<Rightarrow> stream \<Rightarrow> psbt_error + ((bytes \<rightharpoonup> bytes) \<times> stream)" where
  "unknown_field unk key s =
     (if unk key \<noteq> None
      then Inl (failure ''Duplicate Key, key for unknown value already provided'')
      else and_then (read_vector s) (\<lambda>(val_bytes, s). Inr (emplace key val_bytes unk, s)))"

subsection \<open>\<open>PSBTInput::Unserialize\<close>\<close>

text \<open>
  One turn of the read loop after a non-empty key has been read: the \<open>switch\<close> on the type, the
  first byte of the key. The result is the input, \<open>key_lookup\<close> and the rest of the stream.
\<close>

definition input_field ::
  "psbt_ext \<Rightarrow> PSBTInput \<Rightarrow> bytes set \<Rightarrow> bytes \<Rightarrow> stream \<Rightarrow>
   psbt_error + (PSBTInput \<times> bytes set \<times> stream)" where
  "input_field x this key_lookup key s =
     (let type = hd key in
      if type = PSBT_IN_NON_WITNESS_UTXO then
        and_then (key_once key_lookup key
            ''Duplicate Key, input non-witness utxo already provided''
            ''Non-witness utxo key is more than one byte type'')
          (\<lambda>key_lookup. and_then (UnserializeFromVector (decode_txref x) s)
             (\<lambda>(v, s). Inr (this\<lparr>non_witness_utxo := Some v\<rparr>, key_lookup, s)))
      else if type = PSBT_IN_WITNESS_UTXO then
        and_then (key_once key_lookup key
            ''Duplicate Key, input witness utxo already provided''
            ''Witness utxo key is more than one byte type'')
          (\<lambda>key_lookup. and_then (UnserializeFromVector (decode_txout x) s)
             (\<lambda>(v, s). Inr (this\<lparr>witness_utxo := v\<rparr>, key_lookup, s)))
      else if type = PSBT_IN_PARTIAL_SIG then
        (if length key \<noteq> CPubKey_SIZE + 1 \<and> length key \<noteq> CPubKey_COMPRESSED_SIZE + 1
         then Inl (failure
            ''Size of key was not the expected size for the type partial signature pubkey'')
         else
           (let pubkey = tl key in
            if \<not> IsFullyValid x pubkey then Inl (failure ''Invalid pubkey'')
            else if partial_sigs this (GetID x pubkey) \<noteq> None
            then Inl (failure
               ''Duplicate Key, input partial signature for pubkey already provided'')
            else and_then (read_vector s)
               (\<lambda>(sig, s). Inr (this\<lparr>partial_sigs :=
                    emplace (GetID x pubkey) (pubkey, sig) (partial_sigs this)\<rparr>,
                  key_lookup, s))))
      else if type = PSBT_IN_SIGHASH then
        and_then (key_once key_lookup key
            ''Duplicate Key, input sighash type already provided''
            ''Sighash type key is more than one byte type'')
          (\<lambda>key_lookup. and_then (UnserializeFromVector (decode_int x) s)
             (\<lambda>(v, s). Inr (this\<lparr>sighash_type := v\<rparr>, key_lookup, s)))
      else if type = PSBT_IN_REDEEMSCRIPT then
        and_then (key_once key_lookup key
            ''Duplicate Key, input redeemScript already provided''
            ''Input redeemScript key is more than one byte type'')
          (\<lambda>key_lookup. and_then (read_vector s)
             (\<lambda>(v, s). Inr (this\<lparr>redeem_script := v\<rparr>, key_lookup, s)))
      else if type = PSBT_IN_WITNESSSCRIPT then
        and_then (key_once key_lookup key
            ''Duplicate Key, input witnessScript already provided''
            ''Input witnessScript key is more than one byte type'')
          (\<lambda>key_lookup. and_then (read_vector s)
             (\<lambda>(v, s). Inr (this\<lparr>witness_script := v\<rparr>, key_lookup, s)))
      else if type = PSBT_IN_BIP32_DERIVATION then
        and_then (DeserializeHDKeypaths x s key (hd_keypaths this))
          (\<lambda>(keypaths, s). Inr (this\<lparr>hd_keypaths := keypaths\<rparr>, key_lookup, s))
      else if type = PSBT_IN_SCRIPTSIG then
        and_then (key_once key_lookup key
            ''Duplicate Key, input final scriptSig already provided''
            ''Final scriptSig key is more than one byte type'')
          (\<lambda>key_lookup. and_then (read_vector s)
             (\<lambda>(v, s). Inr (this\<lparr>final_script_sig := v\<rparr>, key_lookup, s)))
      else if type = PSBT_IN_SCRIPTWITNESS then
        and_then (key_once key_lookup key
            ''Duplicate Key, input final scriptWitness already provided''
            ''Final scriptWitness key is more than one byte type'')
          (\<lambda>key_lookup. and_then (UnserializeFromVector (decode_stack x) s)
             (\<lambda>(v, s). Inr (this\<lparr>final_script_witness := v\<rparr>, key_lookup, s)))
      else if type = PSBT_IN_PREVIOUS_TXID then
        and_then (key_once_v2 key_lookup key (m_psbt_version this)
            ''Duplicate Key, previous txid is already provided''
            ''Previous txid key is more than one byte type''
            ''Previous txid is not allowed in PSBTv0'')
          (\<lambda>key_lookup. and_then (UnserializeFromVector (decode_uint256 x) s)
             (\<lambda>(v, s). Inr (this\<lparr>prev_txid := v\<rparr>, key_lookup, s)))
      else if type = PSBT_IN_OUTPUT_INDEX then
        and_then (key_once_v2 key_lookup key (m_psbt_version this)
            ''Duplicate Key, previous output's index is already provided''
            ''Previous output's index is more than one byte type''
            ''Previous output's index is not allowed in PSBTv0'')
          (\<lambda>key_lookup. and_then (UnserializeFromVector (decode_u32 x) s)
             (\<lambda>(v, s). Inr (this\<lparr>prev_out := Some v\<rparr>, key_lookup, s)))
      else if type = PSBT_IN_SEQUENCE then
        and_then (key_once_v2 key_lookup key (m_psbt_version this)
            ''Duplicate Key, sequence is already provided''
            ''Sequence key is more than one byte type''
            ''Sequence is not allowed in PSBTv0'')
          (\<lambda>key_lookup. and_then (UnserializeFromVector (decode_u32 x) s)
             (\<lambda>(v, s). Inr (this\<lparr>sequence := Some v\<rparr>, key_lookup, s)))
      else if type = PSBT_IN_REQUIRED_TIME_LOCKTIME then
        and_then (key_once_v2 key_lookup key (m_psbt_version this)
            ''Duplicate Key, required time based locktime is already provided''
            ''Required time based locktime is more than one byte type''
            ''Required time based locktime is not allowed in PSBTv0'')
          (\<lambda>key_lookup. and_then (UnserializeFromVector (decode_u32 x) s)
             (\<lambda>(v, s).
                if v < LOCKTIME_THRESHOLD
                then Inl (failure
                   ''Required time based locktime is invalid (less than 500000000)'')
                else Inr (this\<lparr>time_locktime := Some v\<rparr>, key_lookup, s)))
      else if type = PSBT_IN_REQUIRED_HEIGHT_LOCKTIME then
        and_then (key_once_v2 key_lookup key (m_psbt_version this)
            ''Duplicate Key, required height based locktime is already provided''
            ''Required height based locktime is more than one byte type''
            ''Required height based locktime is not allowed in PSBTv0'')
          (\<lambda>key_lookup. and_then (UnserializeFromVector (decode_u32 x) s)
             (\<lambda>(v, s).
                if v \<ge> LOCKTIME_THRESHOLD
                then Inl (failure
                   ''Required time based locktime is invalid (greater than or equal to 500000000)'')
                else Inr (this\<lparr>height_locktime := Some v\<rparr>, key_lookup, s)))
      else
        and_then (unknown_field (unknown this) key s)
          (\<lambda>(unk, s). Inr (this\<lparr>unknown := unk\<rparr>, key_lookup, s)))"

text \<open>
  The read loop, from \<open>while(!s.empty())\<close> to the \<open>break\<close> at the separator; when the stream ends
  first, \<open>found_sep\<close> is false and the function throws.
\<close>

function input_map ::
  "psbt_ext \<Rightarrow> PSBTInput \<Rightarrow> bytes set \<Rightarrow> stream \<Rightarrow> psbt_error + (PSBTInput \<times> stream)" where
  "input_map x this key_lookup [] =
     Inl (failure ''Separator is missing at the end of an input map'')"
| "input_map x this key_lookup (key # s) =
     (if key = [] then Inr (this, s)
      else (case input_field x this key_lookup key s of
              Inl e \<Rightarrow> Inl e
            | Inr (this', key_lookup', s') \<Rightarrow> input_map x this' key_lookup' s'))"
  by pat_completeness auto

termination
  by (relation "measure (\<lambda>(x, this, key_lookup, s). length s)")
    (auto simp add: input_field_def Let_def and_then_def read_vector_def
      UnserializeFromVector_def DeserializeHDKeypaths_def unknown_field_def
      split: if_splits sum.splits list.splits option.splits)

definition PSBTInput_Unserialize ::
  "psbt_ext \<Rightarrow> PSBTInput \<Rightarrow> stream \<Rightarrow> psbt_error + (PSBTInput \<times> stream)" where
  "PSBTInput_Unserialize x this s =
     and_then (input_map x this {} s)
       (\<lambda>(this, s).
          if m_psbt_version this \<ge> 2 \<and> prev_txid this = 0
          then Inl (failure ''Previous TXID is required in PSBTv2'')
          else if m_psbt_version this \<ge> 2 \<and> prev_out this = None
          then Inl (failure ''Previous output's index is required in PSBTv2'')
          else Inr (this, s))"

subsection \<open>\<open>PSBTOutput::Unserialize\<close>\<close>

definition output_field ::
  "psbt_ext \<Rightarrow> PSBTOutput \<Rightarrow> bytes set \<Rightarrow> bytes \<Rightarrow> stream \<Rightarrow>
   psbt_error + (PSBTOutput \<times> bytes set \<times> stream)" where
  "output_field x this key_lookup key s =
     (let type = hd key in
      if type = PSBT_OUT_REDEEMSCRIPT then
        and_then (key_once key_lookup key
            ''Duplicate Key, output redeemScript already provided''
            ''Output redeemScript key is more than one byte type'')
          (\<lambda>key_lookup. and_then (read_vector s)
             (\<lambda>(v, s). Inr (this\<lparr>out_redeem_script := v\<rparr>, key_lookup, s)))
      else if type = PSBT_OUT_WITNESSSCRIPT then
        and_then (key_once key_lookup key
            ''Duplicate Key, output witnessScript already provided''
            ''Output witnessScript key is more than one byte type'')
          (\<lambda>key_lookup. and_then (read_vector s)
             (\<lambda>(v, s). Inr (this\<lparr>out_witness_script := v\<rparr>, key_lookup, s)))
      else if type = PSBT_OUT_BIP32_DERIVATION then
        and_then (DeserializeHDKeypaths x s key (out_hd_keypaths this))
          (\<lambda>(keypaths, s). Inr (this\<lparr>out_hd_keypaths := keypaths\<rparr>, key_lookup, s))
      else if type = PSBT_OUT_AMOUNT then
        and_then (key_once_v2 key_lookup key (out_m_psbt_version this)
            ''Duplicate Key, output amount is already provided''
            ''Output amount key is more than one byte type''
            ''Output amount is not allowed in PSBTv0'')
          (\<lambda>key_lookup. and_then (UnserializeFromVector (decode_amount x) s)
             (\<lambda>(v, s). Inr (this\<lparr>amount := Some v\<rparr>, key_lookup, s)))
      else if type = PSBT_OUT_SCRIPT then
        and_then (key_once_v2 key_lookup key (out_m_psbt_version this)
            ''Duplicate Key, output script is already provided''
            ''Output script key is more than one byte type''
            ''Output script is not allowed in PSBTv0'')
          (\<lambda>key_lookup. and_then (read_vector s)
             (\<lambda>(v, s). Inr (this\<lparr>script := Some v\<rparr>, key_lookup, s)))
      else
        and_then (unknown_field (out_unknown this) key s)
          (\<lambda>(unk, s). Inr (this\<lparr>out_unknown := unk\<rparr>, key_lookup, s)))"

function output_map ::
  "psbt_ext \<Rightarrow> PSBTOutput \<Rightarrow> bytes set \<Rightarrow> stream \<Rightarrow> psbt_error + (PSBTOutput \<times> stream)" where
  "output_map x this key_lookup [] =
     Inl (failure ''Separator is missing at the end of an output map'')"
| "output_map x this key_lookup (key # s) =
     (if key = [] then Inr (this, s)
      else (case output_field x this key_lookup key s of
              Inl e \<Rightarrow> Inl e
            | Inr (this', key_lookup', s') \<Rightarrow> output_map x this' key_lookup' s'))"
  by pat_completeness auto

termination
  by (relation "measure (\<lambda>(x, this, key_lookup, s). length s)")
    (auto simp add: output_field_def Let_def and_then_def read_vector_def
      UnserializeFromVector_def DeserializeHDKeypaths_def unknown_field_def
      split: if_splits sum.splits list.splits option.splits)

definition PSBTOutput_Unserialize ::
  "psbt_ext \<Rightarrow> PSBTOutput \<Rightarrow> stream \<Rightarrow> psbt_error + (PSBTOutput \<times> stream)" where
  "PSBTOutput_Unserialize x this s =
     and_then (output_map x this {} s)
       (\<lambda>(this, s).
          if out_m_psbt_version this \<ge> 2 \<and> amount this = None
          then Inl (failure ''Output amount is required in PSBTv2'')
          else if out_m_psbt_version this \<ge> 2 \<and> script this = None
          then Inl (failure ''Output script is required in PSBTv2'')
          else Inr (this, s))"

subsection \<open>\<open>PartiallySignedTransaction::Unserialize\<close>\<close>

text \<open>The local variables of the function that the read loop of the global map changes.\<close>

record global_locals =
  key_lookup :: "bytes set"
  input_count :: "64 word"
  output_count :: "64 word"
  found_input_count :: bool
  found_output_count :: bool

definition global_locals_new :: global_locals where
  "global_locals_new =
     \<lparr>key_lookup = {}, input_count = 0, output_count = 0,
      found_input_count = False, found_output_count = False\<rparr>"

definition global_field ::
  "psbt_ext \<Rightarrow> PartiallySignedTransaction \<Rightarrow> global_locals \<Rightarrow> bytes \<Rightarrow> stream \<Rightarrow>
   psbt_error + (PartiallySignedTransaction \<times> global_locals \<times> stream)" where
  "global_field x this l key s =
     (let type = hd key in
      if type = PSBT_GLOBAL_UNSIGNED_TX then
        and_then (key_once (key_lookup l) key
            ''Duplicate Key, unsigned tx already provided''
            ''Global unsigned tx key is more than one byte type'')
          (\<lambda>kl. and_then (UnserializeFromVector (decode_tx x) s)
             (\<lambda>(mtx, s).
                if list_ex (\<lambda>txin. scriptSig txin \<noteq> [] \<or> scriptWitness txin \<noteq> []) (vin mtx)
                then Inl (failure
                   ''Unsigned tx does not have empty scriptSigs and scriptWitnesses.'')
                else Inr (this\<lparr>tx := Some mtx\<rparr>,
                       l\<lparr>key_lookup := kl, input_count := of_nat (length (vin mtx)),
                         output_count := of_nat (length (vout mtx))\<rparr>, s)))
      else if type = PSBT_GLOBAL_TX_VERSION then
        and_then (key_once (key_lookup l) key
            ''Duplicate Key, global transaction version is already provided''
            ''Global transaction version key is more than one byte type'')
          (\<lambda>kl. and_then (UnserializeFromVector (decode_u32 x) s)
             (\<lambda>(v, s). Inr (this\<lparr>tx_version := Some v\<rparr>, l\<lparr>key_lookup := kl\<rparr>, s)))
      else if type = PSBT_GLOBAL_FALLBACK_LOCKTIME then
        and_then (key_once (key_lookup l) key
            ''Duplicate Key, global fallback locktime is already provided''
            ''Global fallback locktime key is more than one byte type'')
          (\<lambda>kl. and_then (UnserializeFromVector (decode_u32 x) s)
             (\<lambda>(v, s). Inr (this\<lparr>fallback_locktime := Some v\<rparr>, l\<lparr>key_lookup := kl\<rparr>, s)))
      else if type = PSBT_GLOBAL_INPUT_COUNT then
        and_then (key_once (key_lookup l) key
            ''Duplicate Key, global input count is already provided''
            ''Global input count key is more than one byte type'')
          (\<lambda>kl. and_then (UnserializeFromVector (decode_compact_size x) s)
             (\<lambda>(v, s). Inr (this,
                l\<lparr>key_lookup := kl, input_count := v, found_input_count := True\<rparr>, s)))
      else if type = PSBT_GLOBAL_OUTPUT_COUNT then
        and_then (key_once (key_lookup l) key
            ''Duplicate Key, global output count is already provided''
            ''Global output count key is more than one byte type'')
          (\<lambda>kl. and_then (UnserializeFromVector (decode_compact_size x) s)
             (\<lambda>(v, s). Inr (this,
                l\<lparr>key_lookup := kl, output_count := v, found_output_count := True\<rparr>, s)))
      else if type = PSBT_GLOBAL_TX_MODIFIABLE then
        and_then (key_once (key_lookup l) key
            ''Duplicate Key, tx modifiable flags is already provided''
            ''Global tx modifiable flags key is more than one byte type'')
          (\<lambda>kl. and_then (UnserializeFromVector (decode_u8 x) s)
             (\<lambda>(tx_mod, s). Inr (this\<lparr>m_tx_modifiable := Some tx_mod\<rparr>,
                l\<lparr>key_lookup := kl\<rparr>, s)))
      else if type = PSBT_GLOBAL_VERSION then
        (if m_version this \<noteq> None
         then Inl (failure ''Duplicate Key, version already provided'')
         else if length key \<noteq> 1
         then Inl (failure ''Global version key is more than one byte type'')
         else and_then (UnserializeFromVector (decode_u32 x) s)
            (\<lambda>(v, s).
               if v > PSBT_HIGHEST_VERSION then Inl (failure ''Unsupported version number'')
               else Inr (this\<lparr>m_version := Some v\<rparr>, l, s)))
      else
        and_then (unknown_field (global_unknown this) key s)
          (\<lambda>(unk, s). Inr (this\<lparr>global_unknown := unk\<rparr>, l, s)))"

function global_map ::
  "psbt_ext \<Rightarrow> PartiallySignedTransaction \<Rightarrow> global_locals \<Rightarrow> stream \<Rightarrow>
   psbt_error + (PartiallySignedTransaction \<times> global_locals \<times> stream)" where
  "global_map x this l [] =
     Inl (failure ''Separator is missing at the end of the global map'')"
| "global_map x this l (key # s) =
     (if key = [] then Inr (this, l, s)
      else (case global_field x this l key s of
              Inl e \<Rightarrow> Inl e
            | Inr (this', l', s') \<Rightarrow> global_map x this' l' s'))"
  by pat_completeness auto

termination
  by (relation "measure (\<lambda>(x, this, l, s). length s)")
    (auto simp add: global_field_def Let_def and_then_def read_vector_def
      UnserializeFromVector_def unknown_field_def
      split: if_splits sum.splits list.splits option.splits)

text \<open>
  Modelled from the spec: \<open>GetVersion\<close> is defined in \<open>psbt.cpp\<close>, which is not among the sources.
  The spec: the "version number field carries PSBT version"; the declared version is the
  value of that field, and 0 when the field is absent (\<open>Serialize\<close> writes the field only when
  \<open>GetVersion() > 0\<close>).
\<close>

definition GetVersion :: "PartiallySignedTransaction \<Rightarrow> 32 word" where
  "GetVersion this = (case m_version this of None \<Rightarrow> 0 | Some v \<Rightarrow> v)"

text \<open>The check of the version constraints, in the order of the code.\<close>

definition version_constraints ::
  "PartiallySignedTransaction \<Rightarrow> global_locals \<Rightarrow> 32 word \<Rightarrow> psbt_error + unit" where
  "version_constraints this l psbt_ver =
     (if psbt_ver = 0 \<and> tx this = None
      then Inl (failure ''No unsigned transaction was provided'')
      else if psbt_ver = 0 \<and> tx_version this \<noteq> None
      then Inl (failure ''PSBT_GLOBAL_TX_VERSION is not allowed in PSBTv0'')
      else if psbt_ver = 0 \<and> fallback_locktime this \<noteq> None
      then Inl (failure ''PSBT_GLOBAL_FALLBACK_LOCKTIME is not allowed in PSBTv0'')
      else if psbt_ver = 0 \<and> found_input_count l
      then Inl (failure ''PSBT_GLOBAL_INPUT_COUNT is not allowed in PSBTv0'')
      else if psbt_ver = 0 \<and> found_output_count l
      then Inl (failure ''PSBT_GLOBAL_OUTPUT_COUNT is not allowed in PSBTv0'')
      else if psbt_ver = 0 \<and> m_tx_modifiable this \<noteq> None
      then Inl (failure ''PSBT_GLOBAL_TX_MODIFIABLE is not allowed in PSBTv0'')
      else if psbt_ver = 1
      then Inl (failure ''There is no PSBT version 1'')
      else if psbt_ver \<ge> 2 \<and> tx_version this = None
      then Inl (failure ''PSBT_GLOBAL_TX_VERSION is required in PSBTv2'')
      else if psbt_ver \<ge> 2 \<and> \<not> found_input_count l
      then Inl (failure ''PSBT_GLOBAL_INPUT_COUNT is required in PSBTv2'')
      else if psbt_ver \<ge> 2 \<and> \<not> found_output_count l
      then Inl (failure ''PSBT_GLOBAL_OUTPUT_COUNT is required in PSBTv2'')
      else if psbt_ver \<ge> 2 \<and> tx this \<noteq> None
      then Inl (failure ''PSBT_GLOBAL_UNSIGNED_TX is not allowed in PSBTv2'')
      else Inr ())"

text \<open>
  The test after an input has been read: its non-witness utxo, when it has one, must have the
  hash of the outpoint. \<open>tx->vin[i]\<close> is read only when there is an unsigned transaction.
\<close>

definition utxo_mismatch ::
  "psbt_ext \<Rightarrow> PartiallySignedTransaction \<Rightarrow> PSBTInput \<Rightarrow> 32 word \<Rightarrow> psbt_error + bool" where
  "utxo_mismatch x this input i =
     (case non_witness_utxo input of
        None \<Rightarrow> Inr False
      | Some utxo \<Rightarrow>
          (case tx this of
             None \<Rightarrow> Inr (prev_txid input \<noteq> 0 \<and> GetHash x utxo \<noteq> prev_txid input)
           | Some t \<Rightarrow>
               if length (vin t) \<le> unat i then Inl out_of_range
               else Inr (GetHash x utxo \<noteq> prevout_hash (vin t ! unat i) \<or>
                         (prev_txid input \<noteq> 0 \<and> GetHash x utxo \<noteq> prev_txid input))))"

text \<open>\<open>while (!s.empty() && i < input_count)\<close>, with \<open>unsigned int i\<close> and \<open>uint64_t input_count\<close>.\<close>

function read_inputs ::
  "psbt_ext \<Rightarrow> 32 word \<Rightarrow> 64 word \<Rightarrow> PartiallySignedTransaction \<Rightarrow> 32 word \<Rightarrow> stream \<Rightarrow>
   psbt_error + (PartiallySignedTransaction \<times> stream)" where
  "read_inputs x psbt_ver count this i s =
     (if s \<noteq> [] \<and> ucast i < count then
        (case PSBTInput_Unserialize x (PSBTInput_new psbt_ver) s of
           Inl e \<Rightarrow> Inl e
         | Inr (input, s') \<Rightarrow>
             (case utxo_mismatch x this input i of
                Inl e \<Rightarrow> Inl e
              | Inr mismatch \<Rightarrow>
                  if mismatch
                  then Inl (failure ''Non-witness UTXO does not match outpoint hash'')
                  else read_inputs x psbt_ver count
                         (this\<lparr>inputs := inputs this @ [input]\<rparr>) (i + 1) s'))
      else Inr (this, s))"
  by pat_completeness auto

termination
proof (relation "measure (\<lambda>(x, psbt_ver, count, this, i, s). length s)", goal_cases)
  case 1
  show ?case by simp
next
  case (2 x psbt_ver count this i s r input s' mismatch)
  have field: "length s2 < length s1"
    if "input_field y t kl key s1 = Inr (t', kl', s2)" for y t kl key s1 t' kl' s2
    using that
    by (auto simp add: input_field_def Let_def and_then_def read_vector_def
        UnserializeFromVector_def DeserializeHDKeypaths_def unknown_field_def
        split: if_splits sum.splits list.splits option.splits)
  have loop: "length b < length s1"
    if "input_map y t kl s1 = Inr (a, b)" for y t kl s1 a b
    using that
  proof (induction y t kl s1 rule: input_map.induct)
    case (1 x this key_lookup)
    then show ?case by simp
  next
    case (2 x this key_lookup key s)
    show ?case
    proof (cases "key = []")
      case True
      with 2(2) show ?thesis by simp
    next
      case False
      with 2(2) obtain this' kl' s2 where
        f: "input_field x this key_lookup key s = Inr (this', kl', s2)" and
        m: "input_map x this' kl' s2 = Inr (a, b)"
        by (auto split: sum.splits)
      from 2(1) [OF False f refl refl m] field [OF f] show ?thesis by simp
    qed
  qed
  from 2 show ?case
    by (auto simp add: PSBTInput_Unserialize_def and_then_def
        split: sum.splits if_splits dest: loop)
qed

function read_outputs ::
  "psbt_ext \<Rightarrow> 32 word \<Rightarrow> 64 word \<Rightarrow> PartiallySignedTransaction \<Rightarrow> 32 word \<Rightarrow> stream \<Rightarrow>
   psbt_error + (PartiallySignedTransaction \<times> stream)" where
  "read_outputs x psbt_ver count this i s =
     (if s \<noteq> [] \<and> ucast i < count then
        (case PSBTOutput_Unserialize x (PSBTOutput_new psbt_ver) s of
           Inl e \<Rightarrow> Inl e
         | Inr (output, s') \<Rightarrow>
             read_outputs x psbt_ver count
               (this\<lparr>outputs := outputs this @ [output]\<rparr>) (i + 1) s')
      else Inr (this, s))"
  by pat_completeness auto

termination
proof (relation "measure (\<lambda>(x, psbt_ver, count, this, i, s). length s)", goal_cases)
  case 1
  show ?case by simp
next
  case (2 x psbt_ver count this i s r out s')
  have field: "length s2 < length s1"
    if "output_field y t kl key s1 = Inr (t', kl', s2)" for y t kl key s1 t' kl' s2
    using that
    by (auto simp add: output_field_def Let_def and_then_def read_vector_def
        UnserializeFromVector_def DeserializeHDKeypaths_def unknown_field_def
        split: if_splits sum.splits list.splits option.splits)
  have loop: "length b < length s1"
    if "output_map y t kl s1 = Inr (a, b)" for y t kl s1 a b
    using that
  proof (induction y t kl s1 rule: output_map.induct)
    case (1 x this key_lookup)
    then show ?case by simp
  next
    case (2 x this key_lookup key s)
    show ?case
    proof (cases "key = []")
      case True
      with 2(2) show ?thesis by simp
    next
      case False
      with 2(2) obtain this' kl' s2 where
        f: "output_field x this key_lookup key s = Inr (this', kl', s2)" and
        m: "output_map x this' kl' s2 = Inr (a, b)"
        by (auto split: sum.splits)
      from 2(1) [OF False f refl refl m] field [OF f] show ?thesis by simp
    qed
  qed
  from 2 show ?case
    by (auto simp add: PSBTOutput_Unserialize_def and_then_def
        split: sum.splits if_splits dest: loop)
qed

text \<open>
  \<open>Unserialize\<close> of a \<open>PartiallySignedTransaction\<close>: \<open>magic\<close> is what \<open>s >> magic\<close> has read, \<open>s\<close> the
  stream after it. The result is the object and the rest of the stream.
\<close>

definition PartiallySignedTransaction_Unserialize ::
  "psbt_ext \<Rightarrow> PartiallySignedTransaction \<Rightarrow> bytes \<Rightarrow> stream \<Rightarrow>
   psbt_error + (PartiallySignedTransaction \<times> stream)" where
  "PartiallySignedTransaction_Unserialize x this magic s =
     (if magic \<noteq> PSBT_MAGIC_BYTES then Inl (failure ''Invalid PSBT magic bytes'')
      else
        and_then (global_map x this global_locals_new s) (\<lambda>(this, l, s).
        let psbt_ver = GetVersion this in
        and_then (version_constraints this l psbt_ver) (\<lambda>_.
        and_then (read_inputs x psbt_ver (input_count l) this 0 s) (\<lambda>(this, s).
        if of_nat (length (inputs this)) \<noteq> input_count l
        then Inl (failure
           ''Inputs provided does not match the number of inputs in transaction.'')
        else
        and_then (read_outputs x psbt_ver (output_count l) this 0 s) (\<lambda>(this, s).
        if of_nat (length (outputs this)) \<noteq> output_count l
        then Inl (failure
           ''Outputs provided does not match the number of outputs in transaction.'')
        else Inr (CacheUnsignedTxPieces x this, s))))))"

text \<open>The constructor \<open>PartiallySignedTransaction(deserialize_type, Stream& s)\<close>.\<close>

definition PartiallySignedTransaction_deserialize ::
  "psbt_ext \<Rightarrow> bytes \<Rightarrow> stream \<Rightarrow> psbt_error + (PartiallySignedTransaction \<times> stream)" where
  "PartiallySignedTransaction_deserialize x magic s =
     PartiallySignedTransaction_Unserialize x PartiallySignedTransaction_new magic s"

subsection \<open>The records of a map\<close>

text \<open>
  The records that a map at the head of a stream holds: the pairs of a key and a value up to
  the separator. The claims about keys are stated with them.
\<close>

fun map_records :: "stream \<Rightarrow> (bytes \<times> bytes) list" where
  "map_records (key # v # s) = (if key = [] then [] else (key, v) # map_records s)"
| "map_records [key] = []"
| "map_records [] = []"

definition has_field :: "8 word \<Rightarrow> stream \<Rightarrow> bool" where
  "has_field type s = list_ex (\<lambda>(key, v). hd key = type) (map_records s)"


subsection \<open>Notions for the claims about keys\<close>

text \<open>The types of the fields of singular nature of each map: the cases of the \<open>switch\<close> that
  start with the test of \<open>kl\<close>.\<close>

definition input_singular :: "8 word set" where
  "input_singular =
     {PSBT_IN_NON_WITNESS_UTXO, PSBT_IN_WITNESS_UTXO, PSBT_IN_SIGHASH, PSBT_IN_REDEEMSCRIPT,
      PSBT_IN_WITNESSSCRIPT, PSBT_IN_SCRIPTSIG, PSBT_IN_SCRIPTWITNESS, PSBT_IN_PREVIOUS_TXID,
      PSBT_IN_OUTPUT_INDEX, PSBT_IN_SEQUENCE, PSBT_IN_REQUIRED_TIME_LOCKTIME,
      PSBT_IN_REQUIRED_HEIGHT_LOCKTIME}"

definition output_singular :: "8 word set" where
  "output_singular =
     {PSBT_OUT_REDEEMSCRIPT, PSBT_OUT_WITNESSSCRIPT, PSBT_OUT_AMOUNT, PSBT_OUT_SCRIPT}"

definition global_singular :: "8 word set" where
  "global_singular =
     {PSBT_GLOBAL_UNSIGNED_TX, PSBT_GLOBAL_TX_VERSION, PSBT_GLOBAL_FALLBACK_LOCKTIME,
      PSBT_GLOBAL_INPUT_COUNT, PSBT_GLOBAL_OUTPUT_COUNT, PSBT_GLOBAL_TX_MODIFIABLE,
      PSBT_GLOBAL_VERSION}"

text \<open>A key has been seen by the read loop of a map, in the state the loop has reached.\<close>

definition input_seen :: "psbt_ext \<Rightarrow> PSBTInput \<Rightarrow> bytes set \<Rightarrow> bytes \<Rightarrow> bool" where
  "input_seen x this kl key =
     (if hd key \<in> input_singular then key \<in> kl
      else if hd key = PSBT_IN_PARTIAL_SIG then partial_sigs this (GetID x (tl key)) \<noteq> None
      else if hd key = PSBT_IN_BIP32_DERIVATION then hd_keypaths this (tl key) \<noteq> None
      else unknown this key \<noteq> None)"

definition output_seen :: "PSBTOutput \<Rightarrow> bytes set \<Rightarrow> bytes \<Rightarrow> bool" where
  "output_seen this kl key =
     (if hd key \<in> output_singular then key \<in> kl
      else if hd key = PSBT_OUT_BIP32_DERIVATION then out_hd_keypaths this (tl key) \<noteq> None
      else out_unknown this key \<noteq> None)"

definition global_seen :: "PartiallySignedTransaction \<Rightarrow> bytes set \<Rightarrow> bytes \<Rightarrow> bool" where
  "global_seen this kl key =
     (if hd key = PSBT_GLOBAL_VERSION then m_version this \<noteq> None
      else if hd key \<in> global_singular then key \<in> kl
      else global_unknown this key \<noteq> None)"

text \<open>An entry of a type that may have several entries is in the object: a partial signature
  under the id of its pubkey, a keypath under its pubkey, an unknown entry under its raw key.\<close>

definition input_stored :: "psbt_ext \<Rightarrow> PSBTInput \<Rightarrow> bytes \<Rightarrow> bytes \<Rightarrow> bool" where
  "input_stored x this key v =
     (if hd key \<in> input_singular then True
      else if hd key = PSBT_IN_PARTIAL_SIG
      then partial_sigs this (GetID x (tl key)) = Some (tl key, v)
      else if hd key = PSBT_IN_BIP32_DERIVATION
      then decode_keypath x v \<noteq> None \<and> hd_keypaths this (tl key) = decode_keypath x v
      else unknown this key = Some v)"

definition output_stored :: "psbt_ext \<Rightarrow> PSBTOutput \<Rightarrow> bytes \<Rightarrow> bytes \<Rightarrow> bool" where
  "output_stored x this key v =
     (if hd key \<in> output_singular then True
      else if hd key = PSBT_OUT_BIP32_DERIVATION
      then decode_keypath x v \<noteq> None \<and> out_hd_keypaths this (tl key) = decode_keypath x v
      else out_unknown this key = Some v)"

definition global_stored :: "PartiallySignedTransaction \<Rightarrow> bytes \<Rightarrow> bytes \<Rightarrow> bool" where
  "global_stored this key v =
     (if hd key \<in> global_singular then True else global_unknown this key = Some v)"

text \<open>What a map that has been read without error satisfies: no raw key occurs twice, the key
  of a field of singular nature is its type byte alone, and every entry of a type with
  several entries is in the object.\<close>

definition keys_ok ::
  "8 word set \<Rightarrow> (bytes \<Rightarrow> bytes \<Rightarrow> bool) \<Rightarrow> (bytes \<times> bytes) list \<Rightarrow> bool" where
  "keys_ok singular stored records \<longleftrightarrow>
     distinct (map fst records) \<and>
     list_all (\<lambda>(key, v). (hd key \<in> singular \<longrightarrow> length key = 1) \<and> stored key v) records"

subsection \<open>Notions for the claim about versions\<close>

text \<open>The value of the first \<open>VERSION\<close> field of the global map at the head of a stream, and the
  version that the map declares: that value, and 0 when the map has no such field.\<close>

definition version_field :: "psbt_ext \<Rightarrow> stream \<Rightarrow> 32 word option" where
  "version_field x s =
     (case filter (\<lambda>(key, v). hd key = PSBT_GLOBAL_VERSION) (map_records s) of
        [] \<Rightarrow> None
      | (key, v) # others \<Rightarrow> decode_u32 x v)"

definition declared_version :: "psbt_ext \<Rightarrow> stream \<Rightarrow> 32 word" where
  "declared_version x s = (case version_field x s of None \<Rightarrow> 0 | Some v \<Rightarrow> v)"

text \<open>The global map has an \<open>UNSIGNED_TX\<close> field, and the transaction of its first such field has
  an empty \<open>scriptSig\<close> and an empty \<open>scriptWitness\<close> in every input.\<close>

definition unsigned_tx_field :: "psbt_ext \<Rightarrow> stream \<Rightarrow> CMutableTransaction option" where
  "unsigned_tx_field x s =
     (case filter (\<lambda>(key, v). hd key = PSBT_GLOBAL_UNSIGNED_TX) (map_records s) of
        [] \<Rightarrow> None
      | (key, v) # others \<Rightarrow> decode_tx x v)"

definition unsigned_tx_present :: "psbt_ext \<Rightarrow> stream \<Rightarrow> bool" where
  "unsigned_tx_present x s =
     (case unsigned_tx_field x s of
        None \<Rightarrow> False
      | Some t \<Rightarrow> list_all (\<lambda>txin. scriptSig txin = [] \<and> scriptWitness txin = []) (vin t))"


section \<open>Example values\<close>

text \<open>Concrete collaborators and descriptors, on which the theorems are evaluated: a
  stand-in for the cryptography that only tags and concatenates bytes (so that different
  inputs give different outputs), a key provider that always answers, one that never
  does, and an \<open>mweb\<close> descriptor with scan secret \<open>[5]\<close> and spend key \<open>[6]\<close>.\<close>

definition example_ext :: ext where
  "example_ext = \<lparr>TaggedHash = (\<lambda>tag data. 0xAD # data), G_mul = (\<lambda>k. 0x47 # k),
     point_add = (\<lambda>P Q. P @ Q), point_mul = (\<lambda>k P. k @ P),
     SecretKeys_Total = (\<lambda>a b. a @ b), CPubKey_GetID = (\<lambda>P. 0x1D # P),
     PublicKey_GetID = (\<lambda>P. 0x1D # P), CKey_Set = (\<lambda>data c. \<lparr>keydata = data, fCompressed = c\<rparr>),
     CKey_GetPubKey = (\<lambda>k. 0x47 # keydata k), EncodeSecret = (\<lambda>k. ''WIF''),
     HexStr = (\<lambda>b. ''hex''), FormatHDKeypath = (\<lambda>p. ''/path''), format_i = (\<lambda>i. ''7''),
     GetScript = (\<lambda>a. case a of ScriptAddress s \<Rightarrow> s | StealthAddress A B \<Rightarrow> A @ B),
     Merge = (\<lambda>a b. \<lparr>scripts = scripts b ++ scripts a, pubkeys = pubkeys b ++ pubkeys a,
       origins = origins b ++ origins a, keys = keys b ++ keys a,
       tr_trees = tr_trees b ++ tr_trees a\<rparr>)\<rparr>"

definition example_origin :: KeyOriginInfo where
  "example_origin = \<lparr>fingerprint = [1, 2, 3, 4], hdkeypath = \<lparr>path = [], mweb_index = None\<rparr>\<rparr>"

definition example_provider :: "bytes \<Rightarrow> unit PubkeyProvider" where
  "example_provider k =
     \<lparr>GetPubKey = (\<lambda>pos sp rc wc. (Some (0x47 # k, example_origin), wc)),
      GetPrivKey = (\<lambda>pos sp. Some \<lparr>keydata = k, fCompressed = True\<rparr>),
      GetKeyOrigin = (\<lambda>pos. None), ToString = ''pub'', ToPrivateString = (\<lambda>sp. Some ''priv''),
      ToNormalizedString = (\<lambda>sp c. Some ''norm''), IsRange = False\<rparr>"

definition failing_provider :: "unit PubkeyProvider" where
  "failing_provider =
     \<lparr>GetPubKey = (\<lambda>pos sp rc wc. (None, wc)), GetPrivKey = (\<lambda>pos sp. None),
      GetKeyOrigin = (\<lambda>pos. None), ToString = ''pub'', ToPrivateString = (\<lambda>sp. None),
      ToNormalizedString = (\<lambda>sp c. None), IsRange = False\<rparr>"

definition example_desc :: "32 word option \<Rightarrow> unit MWEBDescriptor" where
  "example_desc i = \<lparr>master_scan_pk_provider = example_provider [5],
      spend_pk_provider = example_provider [6], m_master_scan_secret = [5], m_mweb_index = i\<rparr>"

definition failing_desc :: "unit MWEBDescriptor" where
  "failing_desc = \<lparr>master_scan_pk_provider = example_provider [5],
      spend_pk_provider = failing_provider, m_master_scan_secret = [5], m_mweb_index = None\<rparr>"

definition empty_fsp :: FlatSigningProvider where
  "empty_fsp = \<lparr>scripts = Map.empty, pubkeys = Map.empty, origins = Map.empty,
     keys = Map.empty, tr_trees = Map.empty\<rparr>"


subsection \<open>Example collaborators for the PSBT functions\<close>

text \<open>
  Toy decoders, to run the functions on concrete streams: a \<open>uint32_t\<close> is four bytes, least
  significant first, a \<open>uint8_t\<close> and a compact size one byte; a transaction is decoded as one
  input per byte, without scripts, and no outputs; every pubkey is valid and is its own id.
\<close>

definition example_tx :: "bytes \<Rightarrow> CMutableTransaction" where
  "example_tx v =
     \<lparr>vin = map (\<lambda>b. \<lparr>prevout_hash = ucast b, prevout_n = 0, scriptSig = [], nSequence = 0,
                       scriptWitness = []\<rparr>) v,
      vout = [], nVersion = 2, nLockTime = 0\<rparr>"

definition example_u32 :: "bytes \<Rightarrow> 32 word option" where
  "example_u32 v =
     (case v of
        [a, b, c, d] \<Rightarrow> Some (ucast a + 256 * ucast b + 65536 * ucast c + 16777216 * ucast d)
      | _ \<Rightarrow> None)"

definition example_byte :: "bytes \<Rightarrow> 8 word option" where
  "example_byte v = (case v of [a] \<Rightarrow> Some a | _ \<Rightarrow> None)"

definition example_psbt_ext :: psbt_ext where
  "example_psbt_ext =
     \<lparr>decode_tx = (\<lambda>v. Some (example_tx v)),
      decode_txref = (\<lambda>v. Some (example_tx v)),
      decode_txout = (\<lambda>v. Some \<lparr>nValue = 0, scriptPubKey = v\<rparr>),
      decode_int = example_u32,
      decode_u32 = example_u32,
      decode_u8 = example_byte,
      decode_amount = (\<lambda>v. map_option ucast (example_byte v)),
      decode_compact_size = (\<lambda>v. map_option ucast (example_byte v)),
      decode_stack = (\<lambda>v. Some [v]),
      decode_uint256 = (\<lambda>v. map_option ucast (example_byte v)),
      decode_keypath = (\<lambda>v. Some \<lparr>fingerprint = v, hdkeypath = \<lparr>path = [], mweb_index = None\<rparr>\<rparr>),
      IsFullyValid = (\<lambda>pubkey. True),
      GetID = (\<lambda>pubkey. pubkey),
      GetHash = (\<lambda>t. 0),
      keypath_key_valid = (\<lambda>key. True),
      CacheUnsignedTxPieces = (\<lambda>this. this)\<rparr>"

text \<open>Two compressed pubkeys (33 bytes).\<close>

definition example_pubkey1 :: bytes where "example_pubkey1 = 0x02 # replicate 32 0x11"
definition example_pubkey2 :: bytes where "example_pubkey2 = 0x03 # replicate 32 0x22"

text \<open>An input map with two partial signatures, two keypaths, a sighash type and two entries
  of unknown types; an output map with two keypaths and an unknown entry; a global map of
  PSBTv0 with an unsigned transaction and two unknown entries.\<close>

definition example_input_map :: stream where
  "example_input_map =
     [PSBT_IN_PARTIAL_SIG # example_pubkey1, [0x30, 0x01],
      PSBT_IN_PARTIAL_SIG # example_pubkey2, [0x30, 0x02],
      PSBT_IN_BIP32_DERIVATION # example_pubkey1, [0xAA],
      PSBT_IN_BIP32_DERIVATION # example_pubkey2, [0xBB],
      [PSBT_IN_SIGHASH], [0x01, 0x00, 0x00, 0x00],
      [0xFC, 0x01], [0x07],
      [0xFC, 0x02], [0x08],
      []]"

definition example_output_map :: stream where
  "example_output_map =
     [PSBT_OUT_BIP32_DERIVATION # example_pubkey1, [0xAA],
      PSBT_OUT_BIP32_DERIVATION # example_pubkey2, [0xBB],
      [0xFC, 0x01], [0x07],
      []]"

definition example_global_map_v0 :: stream where
  "example_global_map_v0 =
     [[PSBT_GLOBAL_UNSIGNED_TX], [0x05],
      [0xFC, 0x01], [0x07],
      [0xFC, 0x02], [0x08],
      []]"

text \<open>A PSBTv2 with a fallback locktime and the modifiable flags, one input and no output;
  and a PSBTv0 with one input and no output.\<close>

definition example_psbt_v2 :: stream where
  "example_psbt_v2 =
     [[PSBT_GLOBAL_TX_VERSION], [0x02, 0x00, 0x00, 0x00],
      [PSBT_GLOBAL_FALLBACK_LOCKTIME], [0x00, 0x00, 0x00, 0x00],
      [PSBT_GLOBAL_INPUT_COUNT], [0x01],
      [PSBT_GLOBAL_OUTPUT_COUNT], [0x00],
      [PSBT_GLOBAL_TX_MODIFIABLE], [0x03],
      [PSBT_GLOBAL_VERSION], [0x02, 0x00, 0x00, 0x00],
      [],
      [PSBT_IN_PREVIOUS_TXID], [0x09],
      [PSBT_IN_OUTPUT_INDEX], [0x00, 0x00, 0x00, 0x00],
      []]"

definition example_psbt_v0 :: stream where
  "example_psbt_v0 =
     [[PSBT_GLOBAL_UNSIGNED_TX], [0x05],
      [],
      [PSBT_IN_SIGHASH], [0x01, 0x00, 0x00, 0x00],
      []]"


section \<open>Theorems: the descriptor checksum\<close>

lemma m35: "(0x7ffffffff :: 64 word) = mask 35"
  by (simp add: mask_eq_exp_minus_1)

lemma c0_bits:
  fixes c0 :: "8 word"
  shows "(c0 AND 1 \<noteq> 0) = bit c0 0" "(c0 AND 2 \<noteq> 0) = bit c0 1" "(c0 AND 4 \<noteq> 0) = bit c0 2"
    "(c0 AND 8 \<noteq> 0) = bit c0 3" "(c0 AND 16 \<noteq> 0) = bit c0 4"
  using bit_iff_and_push_bit_not_eq_0 [of c0 0] bit_iff_and_push_bit_not_eq_0 [of c0 1]
    bit_iff_and_push_bit_not_eq_0 [of c0 2] bit_iff_and_push_bit_not_eq_0 [of c0 3]
    bit_iff_and_push_bit_not_eq_0 [of c0 4]
  by simp_all

lemma top_bits:
  fixes c :: "64 word"
  shows "bit (ucast (drop_bit 35 c) :: 8 word) 0 = bit c 35"
    "bit (ucast (drop_bit 35 c) :: 8 word) 1 = bit c 36"
    "bit (ucast (drop_bit 35 c) :: 8 word) 2 = bit c 37"
    "bit (ucast (drop_bit 35 c) :: 8 word) 3 = bit c 38"
    "bit (ucast (drop_bit 35 c) :: 8 word) 4 = bit c 39"
  by (simp_all add: bit_ucast_iff bit_drop_bit_eq)

lemma if_xor: "(if b then x XOR k else x) = x XOR (if b then k else (0 :: 'a :: len word))"
  by simp

lemma upt5: "[0..<5] = [0, 1, 2, 3, 4 :: nat]"
  by (simp add: upt_rec)

lemma spec_PolyMod_unfold:
  "spec_PolyMod C v =
     push_bit 5 C XOR word_of_nat v XOR
       (if bit C 35 then 0xf5dee51989 else 0) XOR (if bit C 36 then 0xa9fdca3312 else 0) XOR
       (if bit C 37 then 0x1bab10e32d else 0) XOR (if bit C 38 then 0x3706b1677a else 0) XOR
       (if bit C 39 then 0x644d626ffd else 0)"
  unfolding spec_PolyMod_def spec_generator_def upt5
  by (simp add: bit_drop_bit_eq xor.assoc split del: if_split cong: if_cong)

lemma PolyMod_unfold:
  "PolyMod c v =
     push_bit 5 (take_bit 35 c) XOR word_of_int v XOR
       (if bit c 35 then 0xf5dee51989 else 0) XOR (if bit c 36 then 0xa9fdca3312 else 0) XOR
       (if bit c 37 then 0x1bab10e32d else 0) XOR (if bit c 38 then 0x3706b1677a else 0) XOR
       (if bit c 39 then 0x644d626ffd else 0)"
  unfolding PolyMod_def Let_def if_xor c0_bits top_bits m35
  by (simp add: take_bit_eq_mask xor.assoc split del: if_split cong: if_cong)


lemma ucast_xor_40:
  "(ucast (a XOR b :: 40 word) :: 64 word) = ucast a XOR ucast b"
  by (rule bit_word_eqI) (auto simp: bit_simps)

lemma ucast_if_40:
  "(ucast (if b then (k :: 40 word) else 0) :: 64 word) = (if b then ucast k else 0)"
  by simp

lemma ucast_push_40:
  "(ucast (push_bit 5 (C :: 40 word)) :: 64 word) = push_bit 5 (take_bit 35 (ucast C))"
  by (rule bit_word_eqI) (auto simp: bit_simps)

lemma bit_lt32:
  fixes v :: nat
  assumes "v < 32" and "bit v n"
  shows "n < 5"
proof -
  from assms(1) have "take_bit 5 v = v" by (simp add: take_bit_nat_eq_self)
  with assms(2) have "bit (take_bit 5 v) n" by simp
  then show ?thesis by (simp add: bit_take_bit_iff)
qed

lemma ucast_val_40:
  "v < 32 \<Longrightarrow> (ucast (word_of_nat v :: 40 word) :: 64 word) = word_of_int (int v)"
  by (rule bit_word_eqI) (auto simp: bit_simps dest: bit_lt32)

lemma bit_ucast_40:
  "n < 40 \<Longrightarrow> bit (ucast (C :: 40 word) :: 64 word) n = bit C n"
  by (simp add: bit_simps)

lemma PolyMod_refines:
  "v < 32 \<Longrightarrow> PolyMod (ucast (C :: 40 word)) (int v) = ucast (spec_PolyMod C v)"
  unfolding PolyMod_unfold spec_PolyMod_unfold ucast_xor_40 ucast_if_40 ucast_push_40
  by (simp add: ucast_val_40 bit_ucast_40 split del: if_split cong: if_cong)




lemma str_find_None: "(str_find xs ch = None) = (ch \<notin> set xs)"
  by (induction xs) auto

lemma str_find_Some:
  "str_find xs ch = Some p \<Longrightarrow> p = length (takeWhile (\<lambda>c. c \<noteq> ch) xs) \<and> p < length xs"
  by (induction xs arbitrary: p) (auto split: if_splits)

lemma len_charset: "length INPUT_CHARSET = 95"
  by (simp add: INPUT_CHARSET_def)

lemma str_find_position:
  "ch \<in> set INPUT_CHARSET \<Longrightarrow>
   str_find INPUT_CHARSET ch = Some (spec_position ch) \<and> spec_position ch < 95"
proof -
  assume "ch \<in> set INPUT_CHARSET"
  then obtain p where p: "str_find INPUT_CHARSET ch = Some p"
    using str_find_None [of INPUT_CHARSET ch] by (cases "str_find INPUT_CHARSET ch") auto
  from str_find_Some [OF p] show ?thesis
    by (simp add: p spec_position_def len_charset)
qed

lemma int_and_31: "int p AND 31 = int (p mod 32)"
proof -
  have "int p AND 31 = int p AND mask 5" by (simp add: mask_eq_exp_minus_1)
  also have "\<dots> = take_bit 5 (int p)" by (simp add: take_bit_eq_mask)
  also have "\<dots> = int (p mod 32)" by (simp add: take_bit_eq_mod zmod_int)
  finally show ?thesis .
qed

lemma int_drop_5: "drop_bit 5 (int p) = int (p div 32)"
  by (simp add: drop_bit_eq_div zdiv_int)



lemma syms_simps:
  "symbol_stream [] = []"
  "symbol_stream [a] = [spec_position a mod 32, spec_position a div 32]"
  "symbol_stream [a, b] = [spec_position a mod 32, spec_position b mod 32,
                  spec_position a div 32 * 3 + spec_position b div 32]"
  "symbol_stream (a # b # c # rest) =
     [spec_position a mod 32, spec_position b mod 32, spec_position c mod 32,
      (spec_position a div 32 * 3 + spec_position b div 32) * 3 + spec_position c div 32] @ symbol_stream rest"
  by (simp_all add: symbol_stream_def group_symbols_def)

lemmas loop_simps = checksum_loop.simps

declare checksum_loop.simps [simp del]

lemma loop_step:
  assumes "ch \<in> set INPUT_CHARSET"
  shows "checksum_loop c cls clscount (ch # rest) =
     (if clscount + 1 = 3
      then checksum_loop (PolyMod (PolyMod c (int (spec_position ch mod 32)))
             (cls * 3 + int (spec_position ch div 32))) 0 0 rest
      else checksum_loop (PolyMod c (int (spec_position ch mod 32)))
             (cls * 3 + int (spec_position ch div 32)) (clscount + 1) rest)"
  using str_find_position [OF assms] by (simp add: loop_simps int_and_31 int_drop_5 Let_def)

lemma pos_bounds:
  assumes "ch \<in> set INPUT_CHARSET"
  shows "spec_position ch mod 32 < 32" "spec_position ch div 32 < 3"
proof -
  from str_find_position [OF assms] have "spec_position ch \<le> 94" by simp
  then have "spec_position ch div 32 \<le> 94 div 32" by (rule div_le_mono)
  then show "spec_position ch div 32 < 3" by simp
qed simp

lemma cls_bound:
  fixes x y z :: nat
  assumes "x < 3" "y < 3" "z < 3"
  shows "x < 32" "x * 3 + y < 32" "(x * 3 + y) * 3 + z < 32"
  using assms by simp_all

lemma loop1:
  assumes "ch \<in> set INPUT_CHARSET"
  shows "checksum_loop (ucast (C :: 40 word)) 0 0 (ch # rest) =
         checksum_loop (ucast (spec_PolyMod C (spec_position ch mod 32)))
           (int (spec_position ch div 32)) 1 rest"
  by (simp add: loop_step [OF assms] PolyMod_refines pos_bounds [OF assms])

lemma loop2:
  assumes "ch \<in> set INPUT_CHARSET"
  shows "checksum_loop (ucast (C :: 40 word)) (int g) 1 (ch # rest) =
         checksum_loop (ucast (spec_PolyMod C (spec_position ch mod 32)))
           (int (g * 3 + spec_position ch div 32)) 2 rest"
  by (simp add: loop_step [OF assms] PolyMod_refines pos_bounds [OF assms] numeral_2_eq_2)

lemma loop3:
  assumes "ch \<in> set INPUT_CHARSET" and "g * 3 + spec_position ch div 32 < 32"
  shows "checksum_loop (ucast (C :: 40 word)) (int g) 2 (ch # rest) =
         checksum_loop (ucast (spec_PolyMod (spec_PolyMod C (spec_position ch mod 32))
             (g * 3 + spec_position ch div 32))) 0 0 rest"
proof -
  have "int g * 3 + int (spec_position ch div 32) = int (g * 3 + spec_position ch div 32)"
    by simp
  then show ?thesis
    by (simp only: loop_step [OF assms(1)] PolyMod_refines [OF pos_bounds(1) [OF assms(1)]]
          PolyMod_refines [OF assms(2)]) simp
qed

lemma loop_end:
  assumes "g < 32"
  shows "(if (cnt :: nat) > 0 then PolyMod (ucast (C :: 40 word)) (int g) else ucast C) =
         ucast (if cnt > 0 then spec_PolyMod C g else C)"
  by (simp add: PolyMod_refines [OF assms])

lemma loop_refines:
  "set s \<subseteq> set INPUT_CHARSET \<Longrightarrow>
   \<exists>c' cls' cnt'. checksum_loop (ucast (C :: 40 word)) 0 0 s = Some (c', cls', cnt') \<and>
     (if cnt' > 0 then PolyMod c' cls' else c') = ucast (foldl spec_PolyMod C (symbol_stream s))"
proof (induction s arbitrary: C rule: triples.induct)
  case (1 a b c rest)
  then have a: "a \<in> set INPUT_CHARSET" and b: "b \<in> set INPUT_CHARSET"
    and c: "c \<in> set INPUT_CHARSET" and r: "set rest \<subseteq> set INPUT_CHARSET"
    by simp_all
  note pa = pos_bounds [OF a] and pb = pos_bounds [OF b] and pc = pos_bounds [OF c]
  let ?g = "(spec_position a div 32 * 3 + spec_position b div 32) * 3 + spec_position c div 32"
  have g: "?g < 32" by (rule cls_bound(3) [OF pa(2) pb(2) pc(2)])
  let ?C' = "spec_PolyMod (spec_PolyMod (spec_PolyMod (spec_PolyMod C (spec_position a mod 32))
              (spec_position b mod 32)) (spec_position c mod 32)) ?g"
  have step: "checksum_loop (ucast C) 0 0 (a # b # c # rest) = checksum_loop (ucast ?C') 0 0 rest"
    by (simp only: loop1 [OF a] loop2 [OF b] loop3 [OF c g])
  from "1.IH" [OF r, of ?C'] show ?case
    unfolding step by (simp only: syms_simps foldl_Cons foldl_Nil foldl_append)
next
  case 2
  then show ?case by (simp add: syms_simps loop_simps(1))
next
  case (3 a)
  then have a: "a \<in> set INPUT_CHARSET" by simp
  note pa = pos_bounds [OF a]
  have g: "spec_position a div 32 < 32" by (rule cls_bound(1) [OF pa(2) pa(2) pa(2)])
  show ?case
    by (simp add: loop1 [OF a] loop_simps(1) PolyMod_refines [OF g] syms_simps)
next
  case (4 a b)
  then have a: "a \<in> set INPUT_CHARSET" and b: "b \<in> set INPUT_CHARSET" by simp_all
  note pa = pos_bounds [OF a] and pb = pos_bounds [OF b]
  have g: "spec_position a div 32 * 3 + spec_position b div 32 < 32"
    by (rule cls_bound(2) [OF pa(2) pb(2) pb(2)])
  show ?case
    by (simp only: loop1 [OF a] loop2 [OF b] loop_simps(1) syms_simps)
       (simp add: PolyMod_refines [OF g] del: of_nat_add of_nat_mult)
qed

lemma loop_invalid:
  "\<not> set s \<subseteq> set INPUT_CHARSET \<Longrightarrow> checksum_loop c cls clscount s = None"
proof (induction s arbitrary: c cls clscount)
  case Nil
  then show ?case by simp
next
  case (Cons ch s)
  show ?case
  proof (cases "ch \<in> set INPUT_CHARSET")
    case True
    with Cons.prems have "\<not> set s \<subseteq> set INPUT_CHARSET" by simp
    from Cons.IH [OF this] show ?thesis by (simp add: loop_step True)
  next
    case False
    then have "str_find INPUT_CHARSET ch = None" by (simp add: str_find_None)
    then show ?thesis by (simp add: loop_simps)
  qed
qed



lemma funpow_PolyMod_refines:
  "((\<lambda>x. PolyMod x 0) ^^ n) (ucast (C :: 40 word)) = ucast (foldl spec_PolyMod C (replicate n 0))"
proof (induction n arbitrary: C)
  case 0
  then show ?case by simp
next
  case (Suc n)
  have "PolyMod (ucast C) 0 = ucast (spec_PolyMod C 0)"
    using PolyMod_refines [of 0 C] by simp
  then show ?case by (simp only: funpow_Suc_right o_apply replicate_Suc foldl_Cons Suc)
qed

lemma unat_ucast_40:
  "unat (ucast (X :: 40 word) :: 64 word) = unat X"
proof -
  have "unat X < 2 ^ 40" using unsigned_less [of X] by simp
  then have "unat X < 2 ^ 64" by simp
  then show ?thesis by (simp add: unsigned_ucast_eq take_bit_nat_eq_self)
qed

lemma slice_refines:
  "unat (drop_bit k (ucast (C :: 40 word) :: 64 word) AND 31) = unat (take_bit 5 (drop_bit k C))"
proof -
  have "(drop_bit k (ucast C :: 64 word) AND 31) = ucast (take_bit 5 (drop_bit k C))"
  proof -
    have m: "(31 :: 64 word) = mask 5" by (simp add: mask_eq_exp_minus_1)
    show ?thesis
      unfolding m by (rule bit_word_eqI) (auto simp: bit_simps dest: bit_imp_le_length)
  qed
  then show ?thesis by (simp only: unat_ucast_40)
qed

lemma checksum_chars_refines:
  "checksum_chars (ucast (C :: 40 word)) = map (\<lambda>j. CHECKSUM_CHARSET ! spec_slice C j) [0..<8]"
  by (simp add: checksum_chars_def spec_slice_def slice_refines)

lemma DescriptorChecksum_refines:
  "DescriptorChecksum s = spec_DescriptorChecksum s"
proof (cases "set s \<subseteq> set INPUT_CHARSET")
  case True
  from loop_refines [OF True, of 1] obtain c' cls' cnt' where
    l: "checksum_loop 1 0 0 s = Some (c', cls', cnt')"
    and e: "(if cnt' > 0 then PolyMod c' cls' else c') = ucast (foldl spec_PolyMod 1 (symbol_stream s))"
    by auto
  have x: "ucast (C :: 40 word) XOR 1 = (ucast (C XOR 1) :: 64 word)" for C
    by (rule bit_word_eqI) (auto simp: bit_simps)
  show ?thesis
    using True
    by (simp add: DescriptorChecksum_def spec_DescriptorChecksum_def l e funpow_PolyMod_refines x
          checksum_chars_refines spec_state_def symbol_stream_def Let_def del: funpow.simps)
next
  case False
  then show ?thesis
    by (simp add: DescriptorChecksum_def spec_DescriptorChecksum_def loop_invalid)
qed



lemma rep8: "replicate 8 x = [x, x, x, x, x, x, x, x]"
  by (simp add: numeral_eq_Suc)

lemma upt8: "[0..<8] = [0, 1, 2, 3, 4, 5, 6, 7 :: nat]"
  by (simp add: upt_rec)

lemmas spec_eval = spec_DescriptorChecksum_def spec_state_def spec_position_def INPUT_CHARSET_def
  group_symbols_def spec_PolyMod_unfold spec_slice_def CHECKSUM_CHARSET_def rep8 upt8



lemma spec_PolyMod_L: "spec_PolyMod C v = Lshift C XOR word_of_nat v"
  unfolding Lshift_def spec_PolyMod_unfold
  by (simp add: ac_simps split del: if_split cong: if_cong)

lemma if_xor_if:
  "(if p \<noteq> q then g else 0) = (if p then g else 0) XOR (if q then g else (0 :: 40 word))"
  by simp

lemma L_xor: "Lshift (a XOR b) = Lshift a XOR Lshift b"
  unfolding Lshift_def spec_PolyMod_unfold bit_xor_iff push_bit_xor if_xor_if
  by (simp add: ac_simps split del: if_split cong: if_cong)


lemma L_unfold:
  "Lshift C = push_bit 5 C XOR
       (if bit C 35 then 0xf5dee51989 else 0) XOR (if bit C 36 then 0xa9fdca3312 else 0) XOR
       (if bit C 37 then 0x1bab10e32d else 0) XOR (if bit C 38 then 0x3706b1677a else 0) XOR
       (if bit C 39 then 0x644d626ffd else 0)"
  unfolding Lshift_def spec_PolyMod_unfold by simp

lemma L_top_bits:
  assumes "Lshift D = 0"
  shows "\<not> bit D 35 \<and> \<not> bit D 36 \<and> \<not> bit D 37 \<and> \<not> bit D 38 \<and> \<not> bit D 39"
proof -
  have z: "\<not> bit (Lshift D) n" for n using assms by simp
  have b: "\<not> bit (push_bit 5 D) 0" "\<not> bit (push_bit 5 D) 1" "\<not> bit (push_bit 5 D) 2"
    "\<not> bit (push_bit 5 D) 3" "\<not> bit (push_bit 5 D) 4"
    by (simp_all add: bit_push_bit_iff)
  note e = z [of 0] z [of 1] z [of 2] z [of 3] z [of 4]
  show ?thesis
    using e b unfolding L_unfold bit_xor_iff
    by (cases "bit D 35"; cases "bit D 36"; cases "bit D 37"; cases "bit D 38"; cases "bit D 39")
       simp_all
qed

lemma L_inj0:
  assumes "Lshift D = 0"
  shows "D = 0"
proof (rule bit_word_eqI)
  fix n assume n: "n < LENGTH(40)"
  note t = L_top_bits [OF assms]
  then have p: "push_bit 5 D = 0" using assms unfolding L_unfold by simp
  show "bit D n = bit (0 :: 40 word) n"
  proof (cases "n < 35")
    case True
    have "bit (push_bit 5 D) (n + 5) = bit D n"
      using True by (simp add: bit_push_bit_iff)
    then show ?thesis using p by simp
  next
    case False
    with n have "n = 35 \<or> n = 36 \<or> n = 37 \<or> n = 38 \<or> n = 39" by auto
    then show ?thesis using t by auto
  qed
qed

lemma xor_eq_0D:
  fixes a b :: "40 word"
  assumes "a XOR b = 0"
  shows "a = b"
proof -
  have "b = (a XOR a) XOR b" by simp
  also have "\<dots> = a XOR (a XOR b)" by (simp only: xor.assoc)
  also have "\<dots> = a" using assms by simp
  finally show ?thesis by simp
qed

lemma xor_cancel_right:
  fixes x y v :: "40 word"
  assumes "x XOR v = y XOR v"
  shows "x = y"
proof -
  have "x = (x XOR v) XOR v" by (simp add: xor.assoc)
  also have "\<dots> = (y XOR v) XOR v" using assms by simp
  also have "\<dots> = y" by (simp add: xor.assoc)
  finally show ?thesis .
qed

lemma L_inj: "Lshift a = Lshift b \<Longrightarrow> a = b"
proof -
  assume "Lshift a = Lshift b"
  then have "Lshift (a XOR b) = 0" by (simp add: L_xor)
  then have "a XOR b = 0" by (rule L_inj0)
  then show ?thesis by (rule xor_eq_0D)
qed

lemma spec_PolyMod_inj: "spec_PolyMod a v = spec_PolyMod b v \<Longrightarrow> a = b"
  unfolding spec_PolyMod_L by (auto dest: L_inj xor_cancel_right)

lemma foldl_spec_PolyMod_inj:
  "foldl spec_PolyMod a zs = foldl spec_PolyMod b zs \<Longrightarrow> a = b"
  by (induction zs arbitrary: a b) (auto dest: spec_PolyMod_inj)



lemma small5_bit: "small5 w \<Longrightarrow> bit w n \<Longrightarrow> n < 5"
  unfolding small5_def by (metis bit_take_bit_iff)

lemma small5_of_nat: "a < 32 \<Longrightarrow> small5 (word_of_nat a)"
  unfolding small5_def
  by (rule bit_word_eqI) (auto simp: bit_simps dest: bit_lt32)

lemma small5_xor: "small5 a \<Longrightarrow> small5 b \<Longrightarrow> small5 (a XOR b)"
  unfolding small5_def by (metis take_bit_xor)

lemma L_low:
  assumes "\<And>n. bit w n \<Longrightarrow> n < 35"
  shows "Lshift w = push_bit 5 w"
proof -
  have "\<not> bit w 35" "\<not> bit w 36" "\<not> bit w 37" "\<not> bit w 38" "\<not> bit w 39"
    using assms by fastforce+
  then show ?thesis unfolding L_unfold by simp
qed

lemma L_small:
  assumes "small5 e"
  shows "Lshift e = push_bit 5 e" "Lshift (Lshift e) = push_bit 10 e" "Lshift (Lshift (Lshift e)) = push_bit 15 e"
proof -
  note b = small5_bit [OF assms]
  show 1: "Lshift e = push_bit 5 e"
    by (rule L_low) (use b in fastforce)
  have 2: "Lshift (push_bit 5 e) = push_bit 5 (push_bit 5 e)"
    by (rule L_low) (use b in \<open>fastforce simp: bit_push_bit_iff\<close>)
  show 3: "Lshift (Lshift e) = push_bit 10 e"
    unfolding 1 2 by (simp add: push_bit_push_bit)
  have 4: "Lshift (push_bit 10 e) = push_bit 5 (push_bit 10 e)"
    by (rule L_low) (use b in \<open>fastforce simp: bit_push_bit_iff\<close>)
  show "Lshift (Lshift (Lshift e)) = push_bit 15 e"
    unfolding 3 4 by (simp add: push_bit_push_bit)
qed

lemma push_small_eq:
  assumes e: "small5 e" and f: "small5 f" and j: "5 \<le> j" "j \<le> 15" and eq: "push_bit j e = f"
  shows "e = 0 \<and> f = 0"
proof -
  have "f = take_bit 5 f" using f by (simp add: small5_def)
  also have "\<dots> = take_bit 5 (push_bit j e)" using eq by simp
  also have "\<dots> = 0" using j by (simp add: take_bit_push_bit)
  finally have f0: "f = 0" .
  have "e = 0"
  proof (rule bit_word_eqI)
    fix n assume "n < LENGTH(40)"
    show "bit e n = bit (0 :: 40 word) n"
    proof (cases "n < 5")
      case True
      then have "bit (push_bit j e) (n + j) = bit e n"
        using j by (simp add: bit_push_bit_iff)
      then show ?thesis using eq f0 by simp
    next
      case False
      then show ?thesis using small5_bit [OF e, of n] by auto
    qed
  qed
  with f0 show ?thesis by simp
qed

lemma xor_shuffle:
  fixes A p p' g g' :: "40 word"
  assumes "A XOR p XOR g = A XOR p' XOR g'"
  shows "p XOR p' = g XOR g'"
proof (rule bit_word_eqI)
  fix n
  from assms have "bit (A XOR p XOR g) n = bit (A XOR p' XOR g') n" by simp
  then show "bit (p XOR p') n = bit (g XOR g') n" by (auto simp: bit_xor_iff)
qed

lemma of_nat_xor_0:
  assumes "a < 32" "a' < 32" "(word_of_nat a :: 40 word) XOR word_of_nat a' = 0"
  shows "a = a'"
proof -
  from assms(3) have "(word_of_nat a :: 40 word) = word_of_nat a'" by (rule xor_eq_0D)
  then have "take_bit 40 a = take_bit 40 a'" by (simp add: word_of_nat_eq_iff)
  moreover have "a < 2 ^ 40" "a' < 2 ^ 40" using assms(1,2) by simp_all
  ultimately show ?thesis by (simp add: take_bit_nat_eq_self)
qed

lemma window_core:
  assumes a: "a < 32" "a' < 32" and g: "g < 32" "g' < 32"
    and eq: "push_bit j (word_of_nat a XOR word_of_nat a' :: 40 word) = word_of_nat g XOR word_of_nat g'"
    and j: "5 \<le> j" "j \<le> 15"
  shows "a = a' \<and> g = g'"
proof -
  have "small5 (word_of_nat a XOR word_of_nat a')" "small5 (word_of_nat g XOR word_of_nat g')"
    using a g by (simp_all add: small5_xor small5_of_nat)
  from push_small_eq [OF this j eq] a g show ?thesis
    by (auto dest: of_nat_xor_0)
qed

lemma window2:
  assumes a: "a < 32" "a' < 32" and g: "g < 32" "g' < 32"
    and eq: "spec_PolyMod (spec_PolyMod X a) g = spec_PolyMod (spec_PolyMod X a') g'"
  shows "a = a' \<and> g = g'"
proof -
  let ?e = "word_of_nat a XOR word_of_nat a' :: 40 word"
  have s: "small5 ?e" using a by (simp add: small5_xor small5_of_nat)
  from eq have "Lshift (Lshift X) XOR Lshift (word_of_nat a) XOR word_of_nat g =
                Lshift (Lshift X) XOR Lshift (word_of_nat a') XOR word_of_nat g'"
    by (simp add: spec_PolyMod_L L_xor xor.assoc)
  then have "Lshift (word_of_nat a) XOR Lshift (word_of_nat a') = word_of_nat g XOR word_of_nat g'"
    by (rule xor_shuffle)
  then have "push_bit 5 ?e = word_of_nat g XOR word_of_nat g'"
    using L_small(1) [OF s] by (simp add: L_xor)
  from window_core [OF a g this] show ?thesis by simp
qed

lemma window3:
  assumes a: "a < 32" "a' < 32" and g: "g < 32" "g' < 32"
    and eq: "spec_PolyMod (spec_PolyMod (spec_PolyMod X a) b) g =
             spec_PolyMod (spec_PolyMod (spec_PolyMod X a') b) g'"
  shows "a = a' \<and> g = g'"
proof -
  let ?e = "word_of_nat a XOR word_of_nat a' :: 40 word"
  have s: "small5 ?e" using a by (simp add: small5_xor small5_of_nat)
  from eq have "(Lshift (Lshift (Lshift X)) XOR Lshift (word_of_nat b)) XOR Lshift (Lshift (word_of_nat a)) XOR word_of_nat g =
                (Lshift (Lshift (Lshift X)) XOR Lshift (word_of_nat b)) XOR Lshift (Lshift (word_of_nat a')) XOR word_of_nat g'"
    by (simp add: spec_PolyMod_L L_xor ac_simps)
  then have "Lshift (Lshift (word_of_nat a)) XOR Lshift (Lshift (word_of_nat a')) = word_of_nat g XOR word_of_nat g'"
    by (rule xor_shuffle)
  then have "push_bit 10 ?e = word_of_nat g XOR word_of_nat g'"
    using L_small(2) [OF s] by (simp add: L_xor)
  from window_core [OF a g this] show ?thesis by simp
qed

lemma window4:
  assumes a: "a < 32" "a' < 32" and g: "g < 32" "g' < 32"
    and eq: "spec_PolyMod (spec_PolyMod (spec_PolyMod (spec_PolyMod X a) b) c) g =
             spec_PolyMod (spec_PolyMod (spec_PolyMod (spec_PolyMod X a') b) c) g'"
  shows "a = a' \<and> g = g'"
proof -
  let ?e = "word_of_nat a XOR word_of_nat a' :: 40 word"
  have s: "small5 ?e" using a by (simp add: small5_xor small5_of_nat)
  from eq have
    "(Lshift (Lshift (Lshift (Lshift X))) XOR Lshift (Lshift (word_of_nat b)) XOR Lshift (word_of_nat c)) XOR
        Lshift (Lshift (Lshift (word_of_nat a))) XOR word_of_nat g =
     (Lshift (Lshift (Lshift (Lshift X))) XOR Lshift (Lshift (word_of_nat b)) XOR Lshift (word_of_nat c)) XOR
        Lshift (Lshift (Lshift (word_of_nat a'))) XOR word_of_nat g'"
    by (simp add: spec_PolyMod_L L_xor ac_simps)
  then have "Lshift (Lshift (Lshift (word_of_nat a))) XOR Lshift (Lshift (Lshift (word_of_nat a'))) =
      word_of_nat g XOR word_of_nat g'"
    by (rule xor_shuffle)
  then have "push_bit 15 ?e = word_of_nat g XOR word_of_nat g'"
    using L_small(3) [OF s] by (simp add: L_xor)
  from window_core [OF a g this] show ?thesis by simp
qed



lemma position_nth:
  assumes "ch \<in> set INPUT_CHARSET"
  shows "INPUT_CHARSET ! spec_position ch = ch"
proof -
  from str_find_position [OF assms]
  have "length (takeWhile (\<lambda>c. c \<noteq> ch) INPUT_CHARSET) < length INPUT_CHARSET"
    by (simp add: spec_position_def len_charset)
  from nth_length_takeWhile [OF this] show ?thesis by (simp add: spec_position_def)
qed

lemma position_inj:
  assumes "ch \<in> set INPUT_CHARSET" "ch' \<in> set INPUT_CHARSET" "ch \<noteq> ch'"
  shows "spec_position ch mod 32 \<noteq> spec_position ch' mod 32 \<or>
         spec_position ch div 32 \<noteq> spec_position ch' div 32"
proof (rule ccontr)
  assume "\<not> ?thesis"
  then have "spec_position ch = spec_position ch'"
    by (metis div_mult_mod_eq)
  with position_nth [OF assms(1)] position_nth [OF assms(2)] assms(3) show False by simp
qed

lemma syms_append:
  "length G mod 3 = 0 \<Longrightarrow> symbol_stream (G @ rest) = symbol_stream G @ symbol_stream rest"
proof (induction G rule: triples.induct)
  case (1 a b c G)
  then have "length G mod 3 = 0" by simp
  with 1 show ?case by (simp add: syms_simps)
next
  case 2
  then show ?case by (simp add: syms_simps)
next
  case (3 a)
  then show ?case by simp
next
  case (4 a b)
  then show ?case by simp
qed

lemma run_neq_tail:
  assumes "length u < 3"
    and v: "set u \<subseteq> set INPUT_CHARSET" "ch \<in> set INPUT_CHARSET" "ch' \<in> set INPUT_CHARSET"
      "set post \<subseteq> set INPUT_CHARSET"
    and ne: "ch \<noteq> ch'"
  shows "symbol_run X (u @ ch # post) zs \<noteq> symbol_run X (u @ ch' # post) zs"
proof -
  note pc = pos_bounds [OF v(2)] and pc' = pos_bounds [OF v(3)]
  note pi = position_inj [OF v(2) v(3) ne]
  consider (a) "u = []" "post = []"
    | (b) p1 where "u = []" "post = [p1]"
    | (c) p1 p2 rest where "u = []" "post = p1 # p2 # rest"
    | (d) u1 where "u = [u1]" "post = []"
    | (e) u1 p1 rest where "u = [u1]" "post = p1 # rest"
    | (f) u1 u2 where "u = [u1, u2]"
  proof -
    from assms(1) have "u = [] \<or> (\<exists>u1. u = [u1]) \<or> (\<exists>u1 u2. u = [u1, u2])"
      by (cases u; cases "tl u"; cases "tl (tl u)") auto
    moreover have "post = [] \<or> (\<exists>p1. post = [p1]) \<or> (\<exists>p1 p2 rest. post = p1 # p2 # rest)"
      by (cases post; cases "tl post") auto
    ultimately show ?thesis using a b c d e f by (metis list.exhaust)
  qed
  then show ?thesis
  proof cases
    case a
    show ?thesis
    proof
      assume "symbol_run X (u @ ch # post) zs = symbol_run X (u @ ch' # post) zs"
      then have "spec_PolyMod (spec_PolyMod X (spec_position ch mod 32)) (spec_position ch div 32) =
          spec_PolyMod (spec_PolyMod X (spec_position ch' mod 32)) (spec_position ch' div 32)"
        unfolding symbol_run_def a by (auto simp: syms_simps dest: foldl_spec_PolyMod_inj)
      from window2 [OF pc(1) pc'(1) cls_bound(1) [OF pc(2) pc(2) pc(2)]
          cls_bound(1) [OF pc'(2) pc'(2) pc'(2)] this] pi
      show False by simp
    qed
  next
    case b
    then have p1: "p1 \<in> set INPUT_CHARSET" using v by simp
    note pp = pos_bounds [OF p1]
    show ?thesis
    proof
      assume "symbol_run X (u @ ch # post) zs = symbol_run X (u @ ch' # post) zs"
      then have "spec_PolyMod (spec_PolyMod (spec_PolyMod X (spec_position ch mod 32))
            (spec_position p1 mod 32)) (spec_position ch div 32 * 3 + spec_position p1 div 32) =
          spec_PolyMod (spec_PolyMod (spec_PolyMod X (spec_position ch' mod 32))
            (spec_position p1 mod 32)) (spec_position ch' div 32 * 3 + spec_position p1 div 32)"
        unfolding symbol_run_def b by (auto simp: syms_simps dest: foldl_spec_PolyMod_inj)
      from window3 [OF pc(1) pc'(1) cls_bound(2) [OF pc(2) pp(2) pp(2)]
          cls_bound(2) [OF pc'(2) pp(2) pp(2)] this] pi
      show False by simp
    qed
  next
    case c
    then have p1: "p1 \<in> set INPUT_CHARSET" and p2: "p2 \<in> set INPUT_CHARSET" using v by simp_all
    note pp = pos_bounds [OF p1] and pq = pos_bounds [OF p2]
    show ?thesis
    proof
      assume "symbol_run X (u @ ch # post) zs = symbol_run X (u @ ch' # post) zs"
      then have "spec_PolyMod (spec_PolyMod (spec_PolyMod (spec_PolyMod X (spec_position ch mod 32))
            (spec_position p1 mod 32)) (spec_position p2 mod 32))
            ((spec_position ch div 32 * 3 + spec_position p1 div 32) * 3 + spec_position p2 div 32) =
          spec_PolyMod (spec_PolyMod (spec_PolyMod (spec_PolyMod X (spec_position ch' mod 32))
            (spec_position p1 mod 32)) (spec_position p2 mod 32))
            ((spec_position ch' div 32 * 3 + spec_position p1 div 32) * 3 + spec_position p2 div 32)"
        unfolding symbol_run_def c by (auto simp: syms_simps dest: foldl_spec_PolyMod_inj)
      from window4 [OF pc(1) pc'(1) cls_bound(3) [OF pc(2) pp(2) pq(2)]
          cls_bound(3) [OF pc'(2) pp(2) pq(2)] this] pi
      show False by simp
    qed
  next
    case d
    then have u1: "u1 \<in> set INPUT_CHARSET" using v by simp
    note pu = pos_bounds [OF u1]
    show ?thesis
    proof
      assume "symbol_run X (u @ ch # post) zs = symbol_run X (u @ ch' # post) zs"
      then have "spec_PolyMod (spec_PolyMod (spec_PolyMod X (spec_position u1 mod 32))
            (spec_position ch mod 32)) (spec_position u1 div 32 * 3 + spec_position ch div 32) =
          spec_PolyMod (spec_PolyMod (spec_PolyMod X (spec_position u1 mod 32))
            (spec_position ch' mod 32)) (spec_position u1 div 32 * 3 + spec_position ch' div 32)"
        unfolding symbol_run_def d by (auto simp: syms_simps dest: foldl_spec_PolyMod_inj)
      from window2 [OF pc(1) pc'(1) cls_bound(2) [OF pu(2) pc(2) pc(2)]
          cls_bound(2) [OF pu(2) pc'(2) pc'(2)] this] pi
      show False by simp
    qed
  next
    case e
    then have u1: "u1 \<in> set INPUT_CHARSET" and p1: "p1 \<in> set INPUT_CHARSET" using v by simp_all
    note pu = pos_bounds [OF u1] and pp = pos_bounds [OF p1]
    show ?thesis
    proof
      assume "symbol_run X (u @ ch # post) zs = symbol_run X (u @ ch' # post) zs"
      then have "spec_PolyMod (spec_PolyMod (spec_PolyMod (spec_PolyMod X (spec_position u1 mod 32))
            (spec_position ch mod 32)) (spec_position p1 mod 32))
            ((spec_position u1 div 32 * 3 + spec_position ch div 32) * 3 + spec_position p1 div 32) =
          spec_PolyMod (spec_PolyMod (spec_PolyMod (spec_PolyMod X (spec_position u1 mod 32))
            (spec_position ch' mod 32)) (spec_position p1 mod 32))
            ((spec_position u1 div 32 * 3 + spec_position ch' div 32) * 3 + spec_position p1 div 32)"
        unfolding symbol_run_def e by (auto simp: syms_simps dest: foldl_spec_PolyMod_inj)
      from window3 [OF pc(1) pc'(1) cls_bound(3) [OF pu(2) pc(2) pp(2)]
          cls_bound(3) [OF pu(2) pc'(2) pp(2)] this] pi
      show False by simp
    qed
  next
    case f
    then have u1: "u1 \<in> set INPUT_CHARSET" and u2: "u2 \<in> set INPUT_CHARSET" using v by simp_all
    note pu = pos_bounds [OF u1] and pv = pos_bounds [OF u2]
    show ?thesis
    proof
      assume "symbol_run X (u @ ch # post) zs = symbol_run X (u @ ch' # post) zs"
      then have "spec_PolyMod (spec_PolyMod (spec_PolyMod (spec_PolyMod X (spec_position u1 mod 32))
            (spec_position u2 mod 32)) (spec_position ch mod 32))
            ((spec_position u1 div 32 * 3 + spec_position u2 div 32) * 3 + spec_position ch div 32) =
          spec_PolyMod (spec_PolyMod (spec_PolyMod (spec_PolyMod X (spec_position u1 mod 32))
            (spec_position u2 mod 32)) (spec_position ch' mod 32))
            ((spec_position u1 div 32 * 3 + spec_position u2 div 32) * 3 + spec_position ch' div 32)"
        unfolding symbol_run_def f by (auto simp: syms_simps dest: foldl_spec_PolyMod_inj)
      from window2 [OF pc(1) pc'(1) cls_bound(3) [OF pu(2) pv(2) pc(2)]
          cls_bound(3) [OF pu(2) pv(2) pc'(2)] this] pi
      show False by simp
    qed
  qed
qed



lemma run_prefix:
  "length G mod 3 = 0 \<Longrightarrow> symbol_run C (G @ rest) zs = symbol_run (foldl spec_PolyMod C (symbol_stream G)) rest zs"
  by (simp add: symbol_run_def syms_append)

lemma spec_state_run: "spec_state s = symbol_run 1 s (replicate 8 0) XOR 1"
  by (simp add: spec_state_def symbol_run_def symbol_stream_def)

lemma spec_state_single_char:
  assumes v: "set B \<subseteq> set INPUT_CHARSET" and i: "i < length B"
    and x: "x \<in> set INPUT_CHARSET" and ne: "x \<noteq> B ! i"
  shows "spec_state (B[i := x]) \<noteq> spec_state B"
proof -
  define G where "G = take (3 * (i div 3)) B"
  define u where "u = drop (3 * (i div 3)) (take i B)"
  define post where "post = drop (Suc i) B"
  have le: "3 * (i div 3) \<le> i" by simp
  have "take (3 * (i div 3)) (take i B) = take (3 * (i div 3)) B"
    using le by (simp add: min_def)
  then have tk: "take i B = G @ u"
    unfolding G_def u_def using append_take_drop_id [of "3 * (i div 3)" "take i B"] by simp
  have lG: "length G = 3 * (i div 3)" unfolding G_def using i le by simp
  then have G3: "length G mod 3 = 0" by simp
  have lu: "length u < 3"
  proof -
    have "length u = i - 3 * (i div 3)" unfolding u_def using i by simp
    also have "\<dots> = i mod 3" by (simp add: minus_mult_div_eq_mod mult.commute)
    finally show ?thesis by simp
  qed
  have B: "B = G @ (u @ B ! i # post)"
    using id_take_nth_drop [OF i] tk unfolding post_def by simp
  have B': "B[i := x] = G @ (u @ x # post)"
    using upd_conv_take_nth_drop [OF i, of x] tk unfolding post_def by simp
  have "set u \<subseteq> set (take i B)" unfolding u_def by (rule set_drop_subset)
  also have "\<dots> \<subseteq> set B" by (rule set_take_subset)
  finally have vu: "set u \<subseteq> set INPUT_CHARSET" using v by simp
  have "set post \<subseteq> set B" unfolding post_def by (rule set_drop_subset)
  then have vp: "set post \<subseteq> set INPUT_CHARSET" using v by simp
  have vb: "B ! i \<in> set INPUT_CHARSET" using v i nth_mem by blast
  have "symbol_run (foldl spec_PolyMod 1 (symbol_stream G)) (u @ x # post) (replicate 8 0) \<noteq>
        symbol_run (foldl spec_PolyMod 1 (symbol_stream G)) (u @ B ! i # post) (replicate 8 0)"
    by (rule run_neq_tail [OF lu vu x vb vp ne])
  moreover have "symbol_run 1 (B[i := x]) (replicate 8 0) =
      symbol_run (foldl spec_PolyMod 1 (symbol_stream G)) (u @ x # post) (replicate 8 0)"
    unfolding B' by (rule run_prefix [OF G3])
  moreover have "symbol_run 1 B (replicate 8 0) =
      symbol_run (foldl spec_PolyMod 1 (symbol_stream G)) (u @ B ! i # post) (replicate 8 0)"
    using run_prefix [OF G3, of 1 "u @ B ! i # post" "replicate 8 0"] B by simp
  ultimately have "symbol_run 1 (B[i := x]) (replicate 8 0) \<noteq> symbol_run 1 B (replicate 8 0)"
    by simp
  then show ?thesis
    unfolding spec_state_run by (auto dest: xor_cancel_right)
qed



lemma checksum_charset_facts:
  "length CHECKSUM_CHARSET = 32" "distinct CHECKSUM_CHARSET" "CHR ''#'' \<notin> set CHECKSUM_CHARSET"
  by (simp_all add: CHECKSUM_CHARSET_def)

lemma spec_slice_less: "spec_slice C j < 32"
proof -
  have "take_bit 5 (unat (drop_bit (5 * (7 - j)) C)) < 2 ^ 5"
    by (rule take_bit_nat_less_exp)
  then show ?thesis by (simp add: spec_slice_def unsigned_take_bit_eq)
qed

lemma spec_slice_bit:
  assumes "k < 5" "j < 8"
  shows "bit (spec_slice C j) k = bit C (5 * (7 - j) + k)"
  using assms
  by (simp add: spec_slice_def unsigned_take_bit_eq bit_take_bit_iff bit_unsigned_iff
        bit_drop_bit_eq)

lemma spec_slices_inj:
  assumes "\<And>j. j < 8 \<Longrightarrow> spec_slice C j = spec_slice C' j"
  shows "C = C'"
proof (rule bit_word_eqI)
  fix n assume n: "n < LENGTH(40)"
  define j where "j = 7 - n div 5"
  have j: "j < 8" and k: "n mod 5 < 5" and e: "5 * (7 - j) + n mod 5 = n"
    using n unfolding j_def by auto
  from assms [OF j] have "bit (spec_slice C j) (n mod 5) = bit (spec_slice C' j) (n mod 5)"
    by simp
  then show "bit C n = bit C' n"
    unfolding spec_slice_bit [OF k j] e .
qed

lemma checksum_string_inj:
  assumes "map (\<lambda>j. CHECKSUM_CHARSET ! spec_slice C j) [0..<8] =
           map (\<lambda>j. CHECKSUM_CHARSET ! spec_slice C' j) [0..<8]"
  shows "C = C'"
proof (rule spec_slices_inj)
  fix j :: nat assume j: "j < 8"
  from assms have "CHECKSUM_CHARSET ! spec_slice C j = CHECKSUM_CHARSET ! spec_slice C' j"
    using j by (simp add: map_eq_conv)
  then show "spec_slice C j = spec_slice C' j"
    using spec_slice_less [of C j] spec_slice_less [of C' j] checksum_charset_facts(1,2)
    by (simp add: nth_eq_iff_index_eq)
qed

lemma DescriptorChecksum_valid:
  assumes "set B \<subseteq> set INPUT_CHARSET"
  shows "length (DescriptorChecksum B) = 8" "DescriptorChecksum B \<noteq> []"
    "CHR ''#'' \<notin> set (DescriptorChecksum B)"
proof -
  have d: "DescriptorChecksum B = map (\<lambda>j. CHECKSUM_CHARSET ! spec_slice (spec_state B) j) [0..<8]"
    using assms by (simp add: DescriptorChecksum_refines spec_DescriptorChecksum_def)
  show "length (DescriptorChecksum B) = 8" unfolding d by simp
  then show "DescriptorChecksum B \<noteq> []" by auto
  have "set (DescriptorChecksum B) \<subseteq> set CHECKSUM_CHARSET"
    unfolding d using spec_slice_less checksum_charset_facts(1) by (auto simp: nth_mem)
  then show "CHR ''#'' \<notin> set (DescriptorChecksum B)"
    using checksum_charset_facts(3) by blast
qed

lemma DescriptorChecksum_single_char:
  assumes v: "set B \<subseteq> set INPUT_CHARSET" and i: "i < length B" and ne: "x \<noteq> B ! i"
  shows "DescriptorChecksum (B[i := x]) \<noteq> DescriptorChecksum B"
proof (cases "x \<in> set INPUT_CHARSET")
  case True
  then have v': "set (B[i := x]) \<subseteq> set INPUT_CHARSET"
    using v set_update_subset_insert [of B i x] by auto
  have "spec_state (B[i := x]) \<noteq> spec_state B"
    by (rule spec_state_single_char [OF v i True ne])
  then have "map (\<lambda>j. CHECKSUM_CHARSET ! spec_slice (spec_state (B[i := x])) j) [0..<8] \<noteq>
             map (\<lambda>j. CHECKSUM_CHARSET ! spec_slice (spec_state B) j) [0..<8]"
    using checksum_string_inj by blast
  then show ?thesis
    using v v' by (simp add: DescriptorChecksum_refines spec_DescriptorChecksum_def)
next
  case False
  have "x \<in> set (B[i := x])" using i by (simp add: set_update_memI)
  with False have "\<not> set (B[i := x]) \<subseteq> set INPUT_CHARSET" by blast
  then have "DescriptorChecksum (B[i := x]) = []"
    by (simp add: DescriptorChecksum_refines spec_DescriptorChecksum_def)
  then show ?thesis using DescriptorChecksum_valid(2) [OF v] by simp
qed



lemma Split_nonempty: "Split s sep \<noteq> []"
  by (induction s) (auto split: list.splits)

lemma Split_none: "sep \<notin> set s \<Longrightarrow> Split s sep = [s]"
  by (induction s) auto

lemma Split_first: "sep \<notin> set a \<Longrightarrow> Split (a @ sep # b) sep = a # Split b sep"
  by (induction a) auto

lemma length_Split: "length (Split s sep) = Suc (length (filter (\<lambda>c. c = sep) s))"
  using Split_nonempty [of _ sep]
  by (induction s) (auto split: list.splits)

lemma Split_two: "sep \<notin> set a \<Longrightarrow> sep \<notin> set b \<Longrightarrow> Split (a @ sep # b) sep = [a, b]"
  by (simp add: Split_first Split_none)

lemma Split_many:
  assumes "sep \<in> set a \<or> sep \<in> set b"
  shows "length (Split (a @ sep # b) sep) > 2"
proof -
  from assms have "filter (\<lambda>c. c = sep) a \<noteq> [] \<or> filter (\<lambda>c. c = sep) b \<noteq> []"
    by (auto simp: filter_empty_conv)
  then have "length (filter (\<lambda>c. c = sep) a) + length (filter (\<lambda>c. c = sep) b) > 0"
    by auto
  then show ?thesis by (simp add: length_Split)
qed

lemma CheckChecksum_two:
  assumes "CHR ''#'' \<notin> set a" "CHR ''#'' \<notin> set b"
  shows "CheckChecksum (a @ CHR ''#'' # b) rc =
     (if length b \<noteq> 8 then Inl (ExpectedEightCharacters (length b))
      else if DescriptorChecksum a = [] then Inl InvalidCharactersInPayload
      else if DescriptorChecksum a \<noteq> b then Inl (ChecksumMismatch b (DescriptorChecksum a))
      else Inr (a, DescriptorChecksum a))"
  by (simp add: CheckChecksum_def Split_two [OF assms] Let_def)

lemma CheckChecksum_many:
  assumes "CHR ''#'' \<in> set a \<or> CHR ''#'' \<in> set b"
  shows "CheckChecksum (a @ CHR ''#'' # b) rc = Inl MultipleHashSymbols"
  using Split_many [OF assms] by (simp add: CheckChecksum_def Let_def)

lemma CheckChecksum_none:
  assumes "CHR ''#'' \<notin> set s"
  shows "CheckChecksum s True = Inl MissingChecksum"
  by (simp add: CheckChecksum_def Split_none [OF assms] Let_def)


section \<open>Claims on the descriptor checksum\<close>

text \<open>
  Claim C1. \<open>DescriptorChecksum\<close>, the 64-bit loop of the code, computes the checksum as
  specified. The input alphabet has 95 characters (positions 0 to 94). For a string over it the
  state starts at 1, takes \<open>PolyMod\<close> with \<open>p mod 32\<close> for every character at position \<open>p\<close>
  and with the group value \<open>cls = cls * 3 + p div 32\<close> after every third character and once
  more for a trailing partial group (\<open>triples\<close>, \<open>group_symbols\<close>), then eight times \<open>PolyMod\<close>
  with 0, is XORed with 1, and its eight 5-bit slices, most significant first, are looked up in
  \<open>qpzry9x8gf2tvdw0s3jn54khce6mua7l\<close>; \<open>spec_PolyMod\<close> shifts the 40-bit state left by 5, XORs in
  the value and XORs the five generator constants for bits 0 to 4 of the five bits shifted
  out. A string with a character outside the alphabet has the empty checksum.
\<close>

theorem DescriptorChecksum_as_specified:
  "length INPUT_CHARSET = 95 \<and>
   DescriptorChecksum s = spec_DescriptorChecksum s \<and>
   (set s \<subseteq> set INPUT_CHARSET \<longrightarrow>
      DescriptorChecksum s = map (\<lambda>j. CHECKSUM_CHARSET ! spec_slice (spec_state s) j) [0..<8]) \<and>
   (\<not> set s \<subseteq> set INPUT_CHARSET \<longrightarrow> DescriptorChecksum s = [])"
  by (simp add: DescriptorChecksum_refines spec_DescriptorChecksum_def len_charset)

text \<open>The checksum of \<open>raw(deadbeef)\<close> is \<open>89f8spxm\<close>; a line feed is outside the alphabet.\<close>

theorem DescriptorChecksum_as_specified_witness:
  "set ''raw(deadbeef)'' \<subseteq> set INPUT_CHARSET \<and>
   DescriptorChecksum ''raw(deadbeef)'' = ''89f8spxm'' \<and>
   \<not> set [CHR 0x0A] \<subseteq> set INPUT_CHARSET \<and> DescriptorChecksum [CHR 0x0A] = []"
  using DescriptorChecksum_as_specified [of "''raw(deadbeef)''"]
    DescriptorChecksum_as_specified [of "[CHR 0x0A]"]
  by (simp add: spec_eval)

text \<open>The alphabet does not have 96 characters: the last one, the space, is at position 94.\<close>

theorem input_alphabet_size_counterexample:
  "length INPUT_CHARSET = 95 \<and> spec_position (CHR '' '') = 94 \<and>
   str_find INPUT_CHARSET (CHR '' '') = Some 94 \<and> length INPUT_CHARSET \<noteq> 96"
  by (simp add: spec_position_def INPUT_CHARSET_def)

text \<open>
  Claim C6, as the code has it. For every descriptor body \<open>B\<close> over the input alphabet that
  contains no \<open>#\<close>, the string \<open>B#C\<close> with \<open>C = DescriptorChecksum(B)\<close> passes \<open>CheckChecksum\<close>
  (whether or not a checksum is required), and replacing any single character of \<open>B#C\<close> by
  any different character makes \<open>CheckChecksum\<close> fail, with one exception: when the \<open>#\<close>
  itself is replaced, it fails if a checksum is required.
\<close>

theorem checksum_roundtrip:
  assumes v: "set B \<subseteq> set INPUT_CHARSET" and h: "CHR ''#'' \<notin> set B"
  shows "CheckChecksum (AddChecksum B) rc = Inr (B, DescriptorChecksum B) \<and>
         (\<forall>i x. i < length (AddChecksum B) \<and> x \<noteq> AddChecksum B ! i \<and> (i \<noteq> length B \<or> rc) \<longrightarrow>
            isl (CheckChecksum ((AddChecksum B)[i := x]) rc))"
proof -
  let ?C = "DescriptorChecksum B"
  note c = DescriptorChecksum_valid [OF v]
  have A: "AddChecksum B = B @ CHR ''#'' # ?C" by (simp add: AddChecksum_def)
  have 1: "CheckChecksum (AddChecksum B) rc = Inr (B, ?C)"
    unfolding A by (simp add: CheckChecksum_two [OF h c(3)] c)
  have 2: "isl (CheckChecksum ((AddChecksum B)[i := x]) rc)"
    if i: "i < length (AddChecksum B)" and x: "x \<noteq> AddChecksum B ! i" and r: "i \<noteq> length B \<or> rc"
    for i x
  proof -
    consider (body) "i < length B" | (sep) "i = length B" | (sum) j where "i = Suc (length B + j)" "j < 8"
    proof -
      from i have "i < length B + 9" unfolding A using c(1) by simp
      then have "i < length B \<or> i = length B \<or> (\<exists>j. i = Suc (length B + j) \<and> j < 8)"
        by presburger
      then show ?thesis using body sep sum by blast
    qed
    then show ?thesis
    proof cases
      case body
      then have u: "(AddChecksum B)[i := x] = B[i := x] @ CHR ''#'' # ?C"
        unfolding A by (simp add: list_update_append)
      from body x have ne: "x \<noteq> B ! i" unfolding A by (simp add: nth_append)
      show ?thesis
      proof (cases "CHR ''#'' \<in> set (B[i := x])")
        case True
        then show ?thesis unfolding u by (simp add: CheckChecksum_many)
      next
        case False
        from DescriptorChecksum_single_char [OF v body ne]
        show ?thesis unfolding u by (simp add: CheckChecksum_two [OF False c(3)] c)
      qed
    next
      case sep
      with r have rc by simp
      from sep have u: "(AddChecksum B)[i := x] = B @ x # ?C"
        unfolding A by (simp add: list_update_append)
      from sep x have "x \<noteq> CHR ''#''" unfolding A by (simp add: nth_append)
      then have "CHR ''#'' \<notin> set (B @ x # ?C)" using h c(3) by simp
      from CheckChecksum_none [OF this] show ?thesis unfolding u using \<open>rc\<close> by simp
    next
      case sum
      then have u: "(AddChecksum B)[i := x] = B @ CHR ''#'' # ?C[j := x]"
        unfolding A by (simp add: list_update_append)
      from sum x have ne: "x \<noteq> ?C ! j" unfolding A by (simp add: nth_append)
      have l: "length (?C[j := x]) = 8" using c(1) by simp
      have d: "?C \<noteq> ?C[j := x]"
        using ne sum(2) c(1) by (metis nth_list_update_eq)
      show ?thesis
      proof (cases "CHR ''#'' \<in> set (?C[j := x])")
        case True
        then show ?thesis unfolding u by (simp add: CheckChecksum_many)
      next
        case False
        show ?thesis unfolding u using d l c(2) by (simp add: CheckChecksum_two [OF h False])
      qed
    qed
  qed
  from 1 2 show ?thesis by blast
qed

text \<open>
  The round trip at \<open>raw(deadbeef)\<close>: the string with its checksum passes, and it fails after a
  change in the body, in the checksum, and of the separator when a checksum is required.
\<close>

theorem checksum_roundtrip_witness:
  "set ''raw(deadbeef)'' \<subseteq> set INPUT_CHARSET \<and> CHR ''#'' \<notin> set ''raw(deadbeef)'' \<and>
   AddChecksum ''raw(deadbeef)'' = ''raw(deadbeef)#89f8spxm'' \<and>
   CheckChecksum ''raw(deadbeef)#89f8spxm'' False = Inr (''raw(deadbeef)'', ''89f8spxm'') \<and>
   isl (CheckChecksum ''raw(deedbeef)#89f8spxm'' False) \<and>
   isl (CheckChecksum ''raw(deadbeef)#89f8spxn'' False) \<and>
   isl (CheckChecksum ''raw(deadbeef)x89f8spxm'' True)"
proof -
  have v: "set ''raw(deadbeef)'' \<subseteq> set INPUT_CHARSET" by (simp add: INPUT_CHARSET_def)
  have h: "CHR ''#'' \<notin> set ''raw(deadbeef)''" by simp
  have c: "DescriptorChecksum ''raw(deadbeef)'' = ''89f8spxm''"
    by (simp add: DescriptorChecksum_refines spec_eval)
  have A: "AddChecksum ''raw(deadbeef)'' = ''raw(deadbeef)#89f8spxm''"
    by (simp add: AddChecksum_def c)
  note r = checksum_roundtrip [OF v h, unfolded A c]
  from r [of False] have 1:
    "CheckChecksum ''raw(deadbeef)#89f8spxm'' False = Inr (''raw(deadbeef)'', ''89f8spxm'')" by simp
  from r [of False, THEN conjunct2, rule_format, of 6 "CHR ''e''"]
  have 2: "isl (CheckChecksum ''raw(deedbeef)#89f8spxm'' False)" by simp
  from r [of False, THEN conjunct2, rule_format, of 21 "CHR ''n''"]
  have 3: "isl (CheckChecksum ''raw(deadbeef)#89f8spxn'' False)" by simp
  from r [of True, THEN conjunct2, rule_format, of 13 "CHR ''x''"]
  have 4: "isl (CheckChecksum ''raw(deadbeef)x89f8spxm'' True)" by simp
  from v h A 1 2 3 4 show ?thesis by blast
qed

text \<open>
  What the claim as worded gets wrong. When no checksum is required, replacing the \<open>#\<close> by \<open>x\<close>
  gives a string without separator, which is accepted as a body of its own. And \<open>#\<close> is a
  character of the input alphabet: a body that contains it does not pass with its checksum
  appended.
\<close>

theorem checksum_separator_counterexample:
  "set ''raw(deadbeef)'' \<subseteq> set INPUT_CHARSET \<and> CHR ''x'' \<in> set INPUT_CHARSET \<and>
   AddChecksum ''raw(deadbeef)'' = ''raw(deadbeef)#89f8spxm'' \<and>
   (AddChecksum ''raw(deadbeef)'')[13 := CHR ''x''] = ''raw(deadbeef)x89f8spxm'' \<and>
   CheckChecksum ''raw(deadbeef)x89f8spxm'' False = Inr (''raw(deadbeef)x89f8spxm'', ''llg7s4t3'') \<and>
   set ''#'' \<subseteq> set INPUT_CHARSET \<and>
   AddChecksum ''#'' = ''##sgkxs9lm'' \<and>
   CheckChecksum ''##sgkxs9lm'' True = Inl MultipleHashSymbols \<and>
   CheckChecksum ''##sgkxs9lm'' False = Inl MultipleHashSymbols"
proof -
  have c: "DescriptorChecksum ''raw(deadbeef)'' = ''89f8spxm''"
    by (simp add: DescriptorChecksum_refines spec_eval)
  have d: "DescriptorChecksum ''raw(deadbeef)x89f8spxm'' = ''llg7s4t3''"
    by (simp add: DescriptorChecksum_refines spec_eval)
  have e: "DescriptorChecksum ''#'' = ''sgkxs9lm''"
    by (simp add: DescriptorChecksum_refines spec_eval)
  have 1: "CheckChecksum ''raw(deadbeef)x89f8spxm'' False =
      Inr (''raw(deadbeef)x89f8spxm'', ''llg7s4t3'')"
    by (simp add: CheckChecksum_def d)
  have 2: "CheckChecksum ''##sgkxs9lm'' rc = Inl MultipleHashSymbols" for rc
    by (simp add: CheckChecksum_def)
  show ?thesis
    by (simp add: 1 2 AddChecksum_def c e) (simp add: INPUT_CHARSET_def)
qed


section \<open>Theorems: bounds of \<open>multi\<close> and \<open>multi_a\<close>\<close>

lemma multi_keys_loop_Inr:
  "multi_keys_loop pp gs ctx sz ps k args = Inr (sz', ps', k') \<Longrightarrow>
   length ps' = length ps + length args \<and>
   sz' = sz + sum_list (map (\<lambda>p. gs p + 1) (drop (length ps) ps')) \<and>
   take (length ps) ps' = ps \<and> k' = k + word_of_nat (length args)"
proof (induction args arbitrary: sz ps k)
  case Nil
  then show ?case by simp
next
  case (Cons a args)
  from Cons.prems obtain pk where pk: "pp k a ctx = Some pk"
    by (cases "pp k a ctx") simp_all
  with Cons.prems have rec:
    "multi_keys_loop pp gs ctx (sz + (gs pk + 1)) (ps @ [pk]) (k + 1) args = Inr (sz', ps', k')"
    by simp
  note ih = Cons.IH [OF rec]
  from ih have len: "length ps' = length ps + length (a # args)" by simp
  from ih have tk: "take (Suc (length ps)) ps' = ps @ [pk]" by simp
  then have tk': "take (length ps) ps' = ps"
    by (metis append_eq_conv_conj butlast_snoc butlast_take diff_Suc_1 len le_add1 length_Cons
        add_Suc_right Suc_leI not_less_eq_eq take_all_iff nat_le_linear)
  have "ps' ! length ps = pk" using tk len
    by (metis lessI nth_append_length nth_take)
  then have dr: "drop (length ps) ps' = pk # drop (Suc (length ps)) ps'"
    using len by (metis Cons_nth_drop_Suc add_Suc_right length_Cons less_add_Suc1)
  show ?case using ih len tk' dr by (simp add: algebra_simps)
qed

text \<open>
  Claim C7, as the code has it. Once the threshold has parsed as \<open>thres\<close> and every key
  argument has parsed (the loop returns \<open>script_size\<close> and \<open>providers\<close>, one provider for
  each of the \<open>n = length args\<close> arguments), \<open>multi\<close> and \<open>sortedmulti\<close> are accepted exactly
  when the context is top level, \<open>sh\<close> or \<open>wsh\<close>, \<open>1 \<le> n \<le> 20\<close> and \<open>1 \<le> thres \<le> n\<close>,
  with at most 3 keys at top level and \<open>script_size + 3 \<le> 520\<close> inside \<open>sh\<close>;
  \<open>multi_a\<close> and \<open>sortedmulti_a\<close> are accepted exactly inside \<open>tr\<close> with
  \<open>1 \<le> n \<le> 999\<close> and \<open>1 \<le> thres \<le> n\<close>. Everything else is an error.
\<close>

theorem multi_bounds:
  assumes thr: "threshold = Some thres"
    and keys: "multi_keys_loop pp gs ctx 0 [] kei args = Inr (script_size, providers, kei')"
  shows "length providers = length args \<and>
         script_size = sum_list (map (\<lambda>p. gs p + 1) providers) \<and>
         (fname = ''multi'' \<or> fname = ''sortedmulti'' \<longrightarrow>
           (\<not> isl (ParseScript_multi pp gs kei ctx fname threshold args)) =
           ((ctx = TOP \<or> ctx = P2SH \<or> ctx = P2WSH) \<and>
            1 \<le> length args \<and> length args \<le> 20 \<and>
            1 \<le> unat thres \<and> unat thres \<le> length args \<and>
            (ctx = TOP \<longrightarrow> length args \<le> 3) \<and>
            (ctx = P2SH \<longrightarrow> script_size + 3 \<le> 520))) \<and>
         (fname = ''multi_a'' \<or> fname = ''sortedmulti_a'' \<longrightarrow>
           (\<not> isl (ParseScript_multi pp gs kei ctx fname threshold args)) =
           (ctx = P2TR \<and> 1 \<le> length args \<and> length args \<le> 999 \<and>
            1 \<le> unat thres \<and> unat thres \<le> length args))"
proof -
  from multi_keys_loop_Inr [OF keys]
  have len: "length providers = length args"
    and sz: "script_size = sum_list (map (\<lambda>p. gs p + 1) providers)"
    by simp_all
  have pe: "(providers = []) = (length args = 0)"
    using len by auto
  have m: "(\<not> isl (ParseScript_multi pp gs kei ctx fname threshold args)) =
           ((ctx = TOP \<or> ctx = P2SH \<or> ctx = P2WSH) \<and>
            1 \<le> length args \<and> length args \<le> 20 \<and>
            1 \<le> unat thres \<and> unat thres \<le> length args \<and>
            (ctx = TOP \<longrightarrow> length args \<le> 3) \<and>
            (ctx = P2SH \<longrightarrow> script_size + 3 \<le> 520))"
    if "fname = ''multi'' \<or> fname = ''sortedmulti''"
    using that len keys
    by (cases ctx)
       (auto simp: ParseScript_multi_def thr pe MAX_PUBKEYS_PER_MULTISIG_def
          MAX_SCRIPT_ELEMENT_SIZE_def not_less not_le Suc_le_eq unat_gt_0 split: if_splits)
  have ma: "(\<not> isl (ParseScript_multi pp gs kei ctx fname threshold args)) =
           (ctx = P2TR \<and> 1 \<le> length args \<and> length args \<le> 999 \<and>
            1 \<le> unat thres \<and> unat thres \<le> length args)"
    if "fname = ''multi_a'' \<or> fname = ''sortedmulti_a''"
    using that len keys
    by (cases ctx)
       (auto simp: ParseScript_multi_def thr pe MAX_PUBKEYS_PER_MULTI_A_def not_less not_le
          Suc_le_eq unat_gt_0 split: if_splits)
  from len sz m ma show ?thesis by blast
qed

text \<open>The theorem at \<open>sh(multi(2, K1, K2, K3))\<close> with three 33-byte keys: accepted.\<close>

theorem multi_bounds_witness:
  "multi_keys_loop (\<lambda>k a c. Some a) (\<lambda>p. p) P2SH 0 [] 0 [33, 33, 33 :: nat] = Inr (102, [33, 33, 33], 3) \<and>
   \<not> isl (ParseScript_multi (\<lambda>k a c. Some a) (\<lambda>p. p) 0 P2SH ''multi'' (Some 2) [33, 33, 33 :: nat])"
proof -
  have k: "multi_keys_loop (\<lambda>k a c. Some a) (\<lambda>p. p) P2SH 0 [] 0 [33, 33, 33 :: nat]
             = Inr (102, [33, 33, 33], 3)"
    by simp
  from multi_bounds [OF refl k, of "''multi''"] k show ?thesis
    by simp
qed

text \<open>The claim as written gives no limit at top level: \<open>multi(1, K1, K2, K3, K4)\<close> has
  4 keys and threshold 1, inside the claimed bounds, and is rejected there.\<close>

theorem multi_top_level_counterexample:
  "ParseScript_multi (\<lambda>k a c. Some a) (\<lambda>p. p) 0 TOP ''multi'' (Some 1) [33, 33, 33, 33 :: nat]
     = Inl (BareMultisigTooMany 4)"
  by (simp add: ParseScript_multi_def MAX_PUBKEYS_PER_MULTISIG_def)


section \<open>Theorems: merging descriptor caches\<close>

lemma merge_loop_frame:
  assumes "\<And>k v c. f (put k v c) = f c"
  shows "merge_loop get put err this diff es = Inr (this', diff') \<Longrightarrow>
         f this' = f this \<and> f diff' = f diff"
proof (induction es arbitrary: this diff)
  case Nil then show ?case by simp
next
  case (Cons e es)
  obtain k v where e: "e = (k, v)" by (cases e)
  show ?case
  proof (cases "get this k")
    case None
    with Cons.prems e have "merge_loop get put err (put k v this) (put k v diff) es = Inr (this', diff')"
      by simp
    from Cons.IH [OF this] assms show ?thesis by simp
  next
    case (Some x)
    with Cons.prems e have "x = v" and "merge_loop get put err this diff es = Inr (this', diff')"
      by (auto split: if_splits)
    from Cons.IH [OF this(2)] show ?thesis .
  qed
qed

lemma merge_loop_conflict:
  assumes gp: "\<And>k v c. get (put k v c) = (get c)(k \<mapsto> v)"
  shows "distinct (map fst es) \<Longrightarrow> loop_conflict (get this) es \<Longrightarrow>
         \<exists>t. merge_loop get put err this diff es = Inl (err, t)"
proof (induction es arbitrary: this diff)
  case Nil then show ?case by (simp add: loop_conflict_def)
next
  case (Cons e es)
  obtain k v where e: "e = (k, v)" by (cases e)
  from Cons.prems e have kn: "k \<notin> fst ` set es" and d: "distinct (map fst es)" by auto
  show ?case
  proof (cases "get this k")
    case None
    have "loop_conflict (get (put k v this)) es"
      using Cons.prems(2) None kn e unfolding loop_conflict_def gp
      by (auto simp: image_iff) (metis fst_conv)
    from Cons.IH [OF d this] None e show ?thesis by simp
  next
    case (Some x)
    show ?thesis
    proof (cases "x = v")
      case True
      then have "loop_conflict (get this) es"
        using Cons.prems(2) Some e unfolding loop_conflict_def by auto
      from Cons.IH [OF d this] Some True e show ?thesis by simp
    next
      case False
      then show ?thesis using Some e by simp
    qed
  qed
qed

lemma merge_loop_ok:
  assumes gp: "\<And>k v c. get (put k v c) = (get c)(k \<mapsto> v)"
  shows "distinct (map fst es) \<Longrightarrow> \<not> loop_conflict (get this) es \<Longrightarrow>
         \<exists>this' diff'. merge_loop get put err this diff es = Inr (this', diff') \<and>
           get this' = map_of es ++ get this \<and>
           get diff' = get diff ++ (map_of es |` {k. get this k = None})"
proof (induction es arbitrary: this diff)
  case Nil then show ?case by simp
next
  case (Cons e es)
  obtain k v where e: "e = (k, v)" by (cases e)
  from Cons.prems e have kn: "k \<notin> fst ` set es" and d: "distinct (map fst es)" by auto
  then have mk: "map_of es k = None" by (simp add: map_of_eq_None_iff)
  show ?case
  proof (cases "get this k")
    case None
    have nc: "\<not> loop_conflict (get (put k v this)) es"
      using Cons.prems(2) kn e unfolding loop_conflict_def gp
      by (auto simp: image_iff)
    from Cons.IH [OF d nc, of "put k v diff"] obtain this' diff' where
      r: "merge_loop get put err (put k v this) (put k v diff) es = Inr (this', diff')"
      and t: "get this' = map_of es ++ get (put k v this)"
      and df: "get diff' = get (put k v diff) ++ (map_of es |` {k'. get (put k v this) k' = None})"
      by blast
    have t': "get this' = map_of (e # es) ++ get this"
      unfolding t gp e using None by (auto simp: map_add_def fun_eq_iff split: option.splits)
    have df': "get diff' = get diff ++ (map_of (e # es) |` {k. get this k = None})"
      unfolding df gp e using None mk
      by (auto simp: map_add_def restrict_map_def fun_eq_iff split: option.splits)
    have "merge_loop get put err this diff (e # es) = Inr (this', diff')"
      using r None e by simp
    with t' df' show ?thesis by blast
  next
    case (Some x)
    with Cons.prems(2) e have xv: "x = v" unfolding loop_conflict_def by auto
    have nc: "\<not> loop_conflict (get this) es"
      using Cons.prems(2) unfolding loop_conflict_def by auto
    from Cons.IH [OF d nc, of diff] obtain this' diff' where
      r: "merge_loop get put err this diff es = Inr (this', diff')"
      and t: "get this' = map_of es ++ get this"
      and df: "get diff' = get diff ++ (map_of es |` {k. get this k = None})"
      by blast
    have t': "get this' = map_of (e # es) ++ get this"
      unfolding t e using Some xv by (auto simp: map_add_def fun_eq_iff split: option.splits)
    have df': "get diff' = get diff ++ (map_of (e # es) |` {k. get this k = None})"
      unfolding df e using Some
      by (auto simp: map_add_def restrict_map_def fun_eq_iff split: option.splits)
    have "merge_loop get put err this diff (e # es) = Inr (this', diff')"
      using r Some xv e by simp
    with t' df' show ?thesis by blast
  qed
qed


lemma merge_loop_append:
  "merge_loop get put err this diff (xs @ ys) =
     (case merge_loop get put err this diff xs of
        Inl e \<Rightarrow> Inl e
      | Inr (this', diff') \<Rightarrow> merge_loop get put err this' diff' ys)"
  by (induction xs arbitrary: this diff) (auto split: option.splits)

lemma merge_loop_tagged:
  "merge_loop (\<lambda>c. GetCachedDerivedExtPubKey c k) (CacheDerivedExtPubKey k) err this diff inner =
   merge_loop derived_view (\<lambda>(k, i). CacheDerivedExtPubKey k i) err this diff
     (map (\<lambda>(i, x). ((k, i), x)) inner)"
  by (induction inner arbitrary: this diff) (auto simp: derived_view_def split: option.splits)

lemma flatten_derived_Cons:
  "flatten_derived ((k, inner) # outer) = map (\<lambda>(i, x). ((k, i), x)) inner @ flatten_derived outer"
  by (simp add: flatten_derived_def)

lemma merge_derived_loop_flat:
  "merge_derived_loop this diff outer =
   merge_loop derived_view (\<lambda>(k, i). CacheDerivedExtPubKey k i) DerivedXpubMismatch this diff
     (flatten_derived outer)"
proof (induction outer arbitrary: this diff)
  case Nil
  then show ?case by (simp add: flatten_derived_def)
next
  case (Cons e outer)
  obtain k inner where e: "e = (k, inner)" by (cases e)
  show ?case
    by (simp add: e flatten_derived_Cons merge_loop_append merge_loop_tagged Cons.IH
          split: sum.splits)
qed

lemma flatten_derived_key_fst:
  "((k, i), x) \<in> set (flatten_derived outer) \<Longrightarrow> k \<in> fst ` set outer"
proof (induction outer)
  case Nil
  then show ?case by (simp add: flatten_derived_def)
next
  case (Cons e outer)
  obtain k' inner where e: "e = (k', inner)" by (cases e)
  from Cons.prems have "((k, i), x) \<in> set (map (\<lambda>(i, x). ((k', i), x)) inner) \<or>
      ((k, i), x) \<in> set (flatten_derived outer)"
    by (simp add: e flatten_derived_Cons)
  then show ?case
  proof
    assume "((k, i), x) \<in> set (map (\<lambda>(i, x). ((k', i), x)) inner)"
    then have "k = k'" by auto
    then show ?thesis by (simp add: e)
  next
    assume "((k, i), x) \<in> set (flatten_derived outer)"
    from Cons.IH [OF this] show ?thesis by simp
  qed
qed

lemma distinct_flatten_derived:
  "distinct (map fst outer) \<Longrightarrow> list_all (\<lambda>(k, inner). distinct (map fst inner)) outer \<Longrightarrow>
   distinct (map fst (flatten_derived outer))"
proof (induction outer)
  case Nil
  then show ?case by (simp add: flatten_derived_def)
next
  case (Cons e outer)
  obtain k inner where e: "e = (k, inner)" by (cases e)
  have m: "map fst (map (\<lambda>(i, x). ((k, i), x)) inner) = map (Pair k) (map fst inner)"
    by (induction inner) auto
  have d1: "distinct (map fst (map (\<lambda>(i, x). ((k, i), x)) inner))"
    unfolding m using Cons.prems(2) e by (simp add: distinct_map inj_on_def)
  have d2: "distinct (map fst (flatten_derived outer))"
    using Cons by simp
  have kn: "k \<notin> fst ` set outer" using Cons.prems(1) e by simp
  have dj: "set (map fst (map (\<lambda>(i, x). ((k, i), x)) inner)) \<inter> set (map fst (flatten_derived outer)) = {}"
  proof (rule ccontr)
    assume "\<not> ?thesis"
    then obtain ki where a: "ki \<in> set (map fst (map (\<lambda>(i, x). ((k, i), x)) inner))"
      and b: "ki \<in> set (map fst (flatten_derived outer))" by blast
    from a obtain i where ki: "ki = (k, i)" unfolding m by auto
    from b ki obtain x where "((k, i), x) \<in> set (flatten_derived outer)" by auto
    from flatten_derived_key_fst [OF this] kn show False by simp
  qed
  show ?case unfolding e flatten_derived_Cons using d1 d2 dj by simp
qed

lemma map_of_flatten_derived:
  "distinct (map fst outer) \<Longrightarrow>
   map_of (flatten_derived outer) (k, i) =
     (case map_of outer k of None \<Rightarrow> None | Some m \<Rightarrow> map_of m i)"
proof (induction outer)
  case Nil
  then show ?case by (simp add: flatten_derived_def)
next
  case (Cons e outer)
  obtain k' inner where e: "e = (k', inner)" by (cases e)
  have a: "map_of (map (\<lambda>(i, x). ((k', i), x)) inner) (k, i) = (if k = k' then map_of inner i else None)"
    by (induction inner) auto
  from Cons.prems e have kn: "map_of outer k' = None"
    by (simp add: map_of_eq_None_iff)
  show ?case
    unfolding e flatten_derived_Cons map_of_append using Cons a e kn
    by (auto simp: map_add_def split: option.splits)
qed

lemma derived_view_other:
  "distinct (map fst (m_derived_xpubs c)) \<Longrightarrow> map_of (flatten_derived (m_derived_xpubs c)) = derived_view c"
  by (rule ext) (auto simp: derived_view_def GetCachedDerivedExtPubKey_def map_of_flatten_derived)

lemma derived_view_put:
  "derived_view ((case ki of (k, i) \<Rightarrow> CacheDerivedExtPubKey k i) x c) = (derived_view c)(ki \<mapsto> x)"
  by (cases ki)
     (auto simp: derived_view_def GetCachedDerivedExtPubKey_def CacheDerivedExtPubKey_def Let_def
        update_conv' fun_eq_iff split: option.splits)


lemma loop_conflict_map_of:
  "distinct (map fst es) \<Longrightarrow>
   loop_conflict g es = (\<exists>k x y. g k = Some x \<and> map_of es k = Some y \<and> x \<noteq> y)"
  unfolding loop_conflict_def by (auto dest: map_of_SomeD) 

lemma parent_put:
  "GetCachedParentExtPubKey (CacheParentExtPubKey k v c) = (GetCachedParentExtPubKey c)(k \<mapsto> v)"
  by (rule ext) (simp add: GetCachedParentExtPubKey_def CacheParentExtPubKey_def update_conv')

lemma last_hardened_put:
  "GetCachedLastHardenedExtPubKey (CacheLastHardenedExtPubKey k v c) =
     (GetCachedLastHardenedExtPubKey c)(k \<mapsto> v)"
  by (rule ext) (simp add: GetCachedLastHardenedExtPubKey_def CacheLastHardenedExtPubKey_def update_conv')

lemma address_put:
  "GetCachedMWEBAddress (CacheMWEBAddress k v c) = (GetCachedMWEBAddress c)(k \<mapsto> v)"
  by (rule ext) (simp add: GetCachedMWEBAddress_def CacheMWEBAddress_def update_conv')

lemma cache_frames:
  "derived_view (CacheParentExtPubKey k v c) = derived_view c"
  "GetCachedLastHardenedExtPubKey (CacheParentExtPubKey k v c) = GetCachedLastHardenedExtPubKey c"
  "GetCachedMWEBAddress (CacheParentExtPubKey k v c) = GetCachedMWEBAddress c"
  "GetCachedParentExtPubKey ((case ki of (k, i) \<Rightarrow> CacheDerivedExtPubKey k i) v c) = GetCachedParentExtPubKey c"
  "GetCachedLastHardenedExtPubKey ((case ki of (k, i) \<Rightarrow> CacheDerivedExtPubKey k i) v c) =
     GetCachedLastHardenedExtPubKey c"
  "GetCachedMWEBAddress ((case ki of (k, i) \<Rightarrow> CacheDerivedExtPubKey k i) v c) = GetCachedMWEBAddress c"
  "GetCachedParentExtPubKey (CacheLastHardenedExtPubKey k v c) = GetCachedParentExtPubKey c"
  "derived_view (CacheLastHardenedExtPubKey k v c) = derived_view c"
  "GetCachedMWEBAddress (CacheLastHardenedExtPubKey k v c) = GetCachedMWEBAddress c"
  "GetCachedParentExtPubKey (CacheMWEBAddress k a c) = GetCachedParentExtPubKey c"
  "derived_view (CacheMWEBAddress k a c) = derived_view c"
  "GetCachedLastHardenedExtPubKey (CacheMWEBAddress k a c) = GetCachedLastHardenedExtPubKey c"
  by (auto simp: derived_view_def GetCachedDerivedExtPubKey_def GetCachedParentExtPubKey_def
        GetCachedLastHardenedExtPubKey_def GetCachedMWEBAddress_def CacheParentExtPubKey_def
        CacheDerivedExtPubKey_def CacheLastHardenedExtPubKey_def CacheMWEBAddress_def Let_def
        fun_eq_iff split: prod.splits)

lemma empty_cache_views:
  "GetCachedParentExtPubKey empty_cache = Map.empty"
  "derived_view empty_cache = Map.empty"
  "GetCachedLastHardenedExtPubKey empty_cache = Map.empty"
  "GetCachedMWEBAddress empty_cache = Map.empty"
  by (auto simp: derived_view_def GetCachedDerivedExtPubKey_def GetCachedParentExtPubKey_def
        GetCachedLastHardenedExtPubKey_def GetCachedMWEBAddress_def empty_cache_def fun_eq_iff)

lemma cache_conflict_alt:
  "cache_conflict a b \<longleftrightarrow>
     (\<exists>k x y. GetCachedParentExtPubKey a k = Some x \<and> GetCachedParentExtPubKey b k = Some y \<and> x \<noteq> y) \<or>
     (\<exists>k x y. derived_view a k = Some x \<and> derived_view b k = Some y \<and> x \<noteq> y) \<or>
     (\<exists>k x y. GetCachedLastHardenedExtPubKey a k = Some x \<and>
        GetCachedLastHardenedExtPubKey b k = Some y \<and> x \<noteq> y) \<or>
     (\<exists>k x y. GetCachedMWEBAddress a k = Some x \<and> GetCachedMWEBAddress b k = Some y \<and> x \<noteq> y)"
  unfolding cache_conflict_def derived_view_def by auto

text \<open>
  Claim C9. For every cache \<open>this\<close> and every well-formed cache \<open>other\<close>: when some key has
  different values in the two caches, \<open>MergeAndDiff\<close> throws; otherwise it returns, \<open>*this\<close>
  then holds its old entries and every entry of \<open>other\<close> whose key it did not have (entries
  present in both, with equal values, stay as they were), and the returned cache holds
  exactly the entries of \<open>other\<close> whose key was not in \<open>*this\<close>. This is stated for each of the
  four stores (parent, derived, last-hardened xpubs and MWEB addresses).
\<close>

theorem MergeAndDiff_spec:
  assumes wf: "wf_cache other"
  shows "(cache_conflict this other \<longrightarrow> (\<exists>e t. MergeAndDiff this other = Inl (e, t))) \<and>
         (\<not> cache_conflict this other \<longrightarrow>
            (\<exists>this' diff. MergeAndDiff this other = Inr (this', diff) \<and>
               GetCachedParentExtPubKey this' =
                 GetCachedParentExtPubKey other ++ GetCachedParentExtPubKey this \<and>
               derived_view this' = derived_view other ++ derived_view this \<and>
               GetCachedLastHardenedExtPubKey this' =
                 GetCachedLastHardenedExtPubKey other ++ GetCachedLastHardenedExtPubKey this \<and>
               GetCachedMWEBAddress this' = GetCachedMWEBAddress other ++ GetCachedMWEBAddress this \<and>
               GetCachedParentExtPubKey diff =
                 GetCachedParentExtPubKey other |` {k. GetCachedParentExtPubKey this k = None} \<and>
               derived_view diff = derived_view other |` {k. derived_view this k = None} \<and>
               GetCachedLastHardenedExtPubKey diff =
                 GetCachedLastHardenedExtPubKey other |` {k. GetCachedLastHardenedExtPubKey this k = None} \<and>
               GetCachedMWEBAddress diff =
                 GetCachedMWEBAddress other |` {k. GetCachedMWEBAddress this k = None}))"
proof -
  let ?P = GetCachedParentExtPubKey and ?L = GetCachedLastHardenedExtPubKey
  let ?A = GetCachedMWEBAddress and ?D = derived_view
  let ?putD = "\<lambda>(k, i). CacheDerivedExtPubKey k i"
  from wf have dP: "distinct (map fst (m_parent_xpubs other))"
    and dD: "distinct (map fst (flatten_derived (m_derived_xpubs other)))"
    and dD0: "distinct (map fst (m_derived_xpubs other))"
    and dL: "distinct (map fst (m_last_hardened_xpubs other))"
    and dA: "distinct (map fst (m_addresses other))"
    by (simp_all add: wf_cache_def distinct_flatten_derived)
  have mP: "map_of (m_parent_xpubs other) = ?P other"
    and mL: "map_of (m_last_hardened_xpubs other) = ?L other"
    and mA: "map_of (m_addresses other) = ?A other"
    by (simp_all add: GetCachedParentExtPubKey_def GetCachedLastHardenedExtPubKey_def
          GetCachedMWEBAddress_def fun_eq_iff)
  note mD = derived_view_other [OF dD0]
  define cP where "cP = loop_conflict (?P this) (m_parent_xpubs other)"
  define cD where "cD = loop_conflict (?D this) (flatten_derived (m_derived_xpubs other))"
  define cL where "cL = loop_conflict (?L this) (m_last_hardened_xpubs other)"
  define cA where "cA = loop_conflict (?A this) (m_addresses other)"
  have cc: "cache_conflict this other = (cP \<or> cD \<or> cL \<or> cA)"
    unfolding cache_conflict_alt cP_def cD_def cL_def cA_def
      loop_conflict_map_of [OF dP] loop_conflict_map_of [OF dD] loop_conflict_map_of [OF dL]
      loop_conflict_map_of [OF dA] mP mL mA mD ..
  show ?thesis
  proof (cases cP)
    case True
    from merge_loop_conflict [where get = ?P and put = CacheParentExtPubKey, OF parent_put dP,
        OF True [unfolded cP_def], of ParentXpubMismatch empty_cache]
    obtain t where "merge_loop ?P CacheParentExtPubKey ParentXpubMismatch this empty_cache
             (m_parent_xpubs other) = Inl (ParentXpubMismatch, t)" by blast
    then show ?thesis using True cc by (simp add: MergeAndDiff_def)
  next
    case nP: False
    from merge_loop_ok [where get = ?P and put = CacheParentExtPubKey, OF parent_put dP,
        OF nP [unfolded cP_def], of ParentXpubMismatch empty_cache]
    obtain t1 d1 where
      r1: "merge_loop ?P CacheParentExtPubKey ParentXpubMismatch this empty_cache
             (m_parent_xpubs other) = Inr (t1, d1)"
      and t1P: "?P t1 = ?P other ++ ?P this"
      and d1P: "?P d1 = ?P other |` {k. ?P this k = None}"
      unfolding mP by (auto simp: empty_cache_views)
    have f1: "?D t1 = ?D this" "?D d1 = Map.empty" "?L t1 = ?L this" "?L d1 = Map.empty"
      "?A t1 = ?A this" "?A d1 = Map.empty"
      using merge_loop_frame [where f = ?D, OF _ r1] merge_loop_frame [where f = ?L, OF _ r1]
        merge_loop_frame [where f = ?A, OF _ r1]
      by (simp_all add: cache_frames empty_cache_views)
    show ?thesis
    proof (cases cD)
      case True
      then have "loop_conflict (?D t1) (flatten_derived (m_derived_xpubs other))"
        by (simp add: cD_def f1)
      from merge_loop_conflict [where get = ?D and put = ?putD, OF derived_view_put dD this,
          of DerivedXpubMismatch d1]
      obtain t where "merge_loop ?D ?putD DerivedXpubMismatch t1 d1
               (flatten_derived (m_derived_xpubs other)) = Inl (DerivedXpubMismatch, t)" by blast
      then show ?thesis using True cc r1 by (simp add: MergeAndDiff_def merge_derived_loop_flat)
    next
      case nD: False
      then have "\<not> loop_conflict (?D t1) (flatten_derived (m_derived_xpubs other))"
        by (simp add: cD_def f1)
      from merge_loop_ok [where get = ?D and put = ?putD, OF derived_view_put dD this,
          of DerivedXpubMismatch d1]
      obtain t2 d2 where
        r2: "merge_loop ?D ?putD DerivedXpubMismatch t1 d1
               (flatten_derived (m_derived_xpubs other)) = Inr (t2, d2)"
        and t2D: "?D t2 = ?D other ++ ?D this"
        and d2D: "?D d2 = ?D other |` {k. ?D this k = None}"
        unfolding mD by (auto simp: f1)
      have f2: "?P t2 = ?P t1" "?P d2 = ?P d1" "?L t2 = ?L t1" "?L d2 = ?L d1"
        "?A t2 = ?A t1" "?A d2 = ?A d1"
        using merge_loop_frame [where f = ?P, OF _ r2] merge_loop_frame [where f = ?L, OF _ r2]
          merge_loop_frame [where f = ?A, OF _ r2]
        by (simp_all add: cache_frames)
      show ?thesis
      proof (cases cL)
        case True
        then have "loop_conflict (?L t2) (m_last_hardened_xpubs other)"
          by (simp add: cL_def f1 f2)
        from merge_loop_conflict [where get = ?L and put = CacheLastHardenedExtPubKey,
            OF last_hardened_put dL this, of LastHardenedXpubMismatch d2]
        obtain t where "merge_loop ?L CacheLastHardenedExtPubKey LastHardenedXpubMismatch t2 d2
                 (m_last_hardened_xpubs other) = Inl (LastHardenedXpubMismatch, t)" by blast
        then show ?thesis using True cc r1 r2
          by (simp add: MergeAndDiff_def merge_derived_loop_flat)
      next
        case nL: False
        then have "\<not> loop_conflict (?L t2) (m_last_hardened_xpubs other)"
          by (simp add: cL_def f1 f2)
        from merge_loop_ok [where get = ?L and put = CacheLastHardenedExtPubKey,
            OF last_hardened_put dL this, of LastHardenedXpubMismatch d2]
        obtain t3 d3 where
          r3: "merge_loop ?L CacheLastHardenedExtPubKey LastHardenedXpubMismatch t2 d2
                 (m_last_hardened_xpubs other) = Inr (t3, d3)"
          and t3L: "?L t3 = ?L other ++ ?L this"
          and d3L: "?L d3 = ?L other |` {k. ?L this k = None}"
          unfolding mL by (auto simp: f1 f2)
        have f3: "?P t3 = ?P t2" "?P d3 = ?P d2" "?D t3 = ?D t2" "?D d3 = ?D d2"
          "?A t3 = ?A t2" "?A d3 = ?A d2"
          using merge_loop_frame [where f = ?P, OF _ r3] merge_loop_frame [where f = ?D, OF _ r3]
            merge_loop_frame [where f = ?A, OF _ r3]
          by (simp_all add: cache_frames)
        show ?thesis
        proof (cases cA)
          case True
          then have "loop_conflict (?A t3) (m_addresses other)"
            by (simp add: cA_def f1 f2 f3)
          from merge_loop_conflict [where get = ?A and put = CacheMWEBAddress,
              OF address_put dA this, of MWEBAddressMismatch d3]
          obtain t where "merge_loop ?A CacheMWEBAddress MWEBAddressMismatch t3 d3
                   (m_addresses other) = Inl (MWEBAddressMismatch, t)" by blast
          then show ?thesis using True cc r1 r2 r3
            by (simp add: MergeAndDiff_def merge_derived_loop_flat)
        next
          case nA: False
          then have "\<not> loop_conflict (?A t3) (m_addresses other)"
            by (simp add: cA_def f1 f2 f3)
          from merge_loop_ok [where get = ?A and put = CacheMWEBAddress,
              OF address_put dA this, of MWEBAddressMismatch d3]
          obtain t4 d4 where
            r4: "merge_loop ?A CacheMWEBAddress MWEBAddressMismatch t3 d3
                   (m_addresses other) = Inr (t4, d4)"
            and t4A: "?A t4 = ?A other ++ ?A this"
            and d4A: "?A d4 = ?A other |` {k. ?A this k = None}"
            unfolding mA by (auto simp: f1 f2 f3)
          have f4: "?P t4 = ?P t3" "?P d4 = ?P d3" "?D t4 = ?D t3" "?D d4 = ?D d3"
            "?L t4 = ?L t3" "?L d4 = ?L d3"
            using merge_loop_frame [where f = ?P, OF _ r4] merge_loop_frame [where f = ?D, OF _ r4]
              merge_loop_frame [where f = ?L, OF _ r4]
            by (simp_all add: cache_frames)
          have res: "MergeAndDiff this other = Inr (t4, d4)"
            using r1 r2 r3 r4 by (simp add: MergeAndDiff_def merge_derived_loop_flat)
          have "\<not> cache_conflict this other" using nP nD nL nA cc by simp
          moreover have "?P t4 = ?P other ++ ?P this" "?D t4 = ?D other ++ ?D this"
            "?L t4 = ?L other ++ ?L this" "?A t4 = ?A other ++ ?A this"
            "?P d4 = ?P other |` {k. ?P this k = None}" "?D d4 = ?D other |` {k. ?D this k = None}"
            "?L d4 = ?L other |` {k. ?L this k = None}" "?A d4 = ?A other |` {k. ?A this k = None}"
            by (simp_all add: f4 f3 f2 t1P d1P t2D d2D t3L d3L t4A d4A)
          ultimately show ?thesis using res by blast
        qed
      qed
    qed
  qed
qed

text \<open>The theorem at two agreeing caches (the merge returns, and the address at index 6 is
  new) and at two caches that disagree on the parent xpub of key 0 (the merge throws).\<close>

theorem MergeAndDiff_spec_witness:
  "wf_cache \<lparr>m_parent_xpubs = [(0, 10 :: nat), (1, 20)], m_derived_xpubs = [(0, [(1, 11), (2, 12)])],
             m_last_hardened_xpubs = [(3, 30)], m_addresses = [(6, 60 :: nat)]\<rparr> \<and>
   (\<exists>this' diff.
      MergeAndDiff
        \<lparr>m_parent_xpubs = [(0, 10 :: nat)], m_derived_xpubs = [(0, [(1, 11)])],
         m_last_hardened_xpubs = [], m_addresses = [(5, 50 :: nat)]\<rparr>
        \<lparr>m_parent_xpubs = [(0, 10), (1, 20)], m_derived_xpubs = [(0, [(1, 11), (2, 12)])],
         m_last_hardened_xpubs = [(3, 30)], m_addresses = [(6, 60)]\<rparr> = Inr (this', diff) \<and>
      GetCachedMWEBAddress diff 6 = Some 60 \<and> GetCachedMWEBAddress diff 5 = None \<and>
      GetCachedMWEBAddress this' 5 = Some 50) \<and>
   (\<exists>e t.
      MergeAndDiff
        \<lparr>m_parent_xpubs = [(0, 10 :: nat)], m_derived_xpubs = [], m_last_hardened_xpubs = [],
         m_addresses = ([] :: nat u32map)\<rparr>
        \<lparr>m_parent_xpubs = [(0, 11)], m_derived_xpubs = [], m_last_hardened_xpubs = [],
         m_addresses = []\<rparr> = Inl (e, t))"
proof -
  let ?a = "\<lparr>m_parent_xpubs = [(0, 10 :: nat)], m_derived_xpubs = [(0, [(1, 11)])],
         m_last_hardened_xpubs = [], m_addresses = [(5, 50 :: nat)]\<rparr>"
  let ?b = "\<lparr>m_parent_xpubs = [(0, 10 :: nat), (1, 20)], m_derived_xpubs = [(0, [(1, 11), (2, 12)])],
             m_last_hardened_xpubs = [(3, 30)], m_addresses = [(6, 60 :: nat)]\<rparr>"
  let ?c = "\<lparr>m_parent_xpubs = [(0, 10 :: nat)], m_derived_xpubs = [], m_last_hardened_xpubs = [],
         m_addresses = ([] :: nat u32map)\<rparr>"
  let ?d = "\<lparr>m_parent_xpubs = [(0, 11 :: nat)], m_derived_xpubs = [], m_last_hardened_xpubs = [],
         m_addresses = ([] :: nat u32map)\<rparr>"
  have wb: "wf_cache ?b" and wd: "wf_cache ?d"
    by (simp_all add: wf_cache_def)
  have nc: "\<not> cache_conflict ?a ?b"
    by (auto simp: cache_conflict_def GetCachedParentExtPubKey_def GetCachedDerivedExtPubKey_def
          GetCachedLastHardenedExtPubKey_def GetCachedMWEBAddress_def split: if_splits)
  have c: "cache_conflict ?c ?d"
    unfolding cache_conflict_def
    by (rule disjI1, rule exI [of _ 0], rule exI [of _ 10], rule exI [of _ 11])
       (simp add: GetCachedParentExtPubKey_def)
  from MergeAndDiff_spec [OF wb, of ?a] nc obtain this' diff where
    r: "MergeAndDiff ?a ?b = Inr (this', diff)"
    and a: "GetCachedMWEBAddress diff = GetCachedMWEBAddress ?b |` {k. GetCachedMWEBAddress ?a k = None}"
    and t: "GetCachedMWEBAddress this' = GetCachedMWEBAddress ?b ++ GetCachedMWEBAddress ?a"
    by blast
  have "GetCachedMWEBAddress diff 6 = Some 60" "GetCachedMWEBAddress diff 5 = None"
    "GetCachedMWEBAddress this' 5 = Some 50"
    unfolding a t by (simp_all add: GetCachedMWEBAddress_def restrict_map_def)
  moreover from MergeAndDiff_spec [OF wd, of ?c] c
  have "\<exists>e t. MergeAndDiff ?c ?d = Inl (e, t)" by blast
  ultimately show ?thesis using wb r by blast
qed


section \<open>Theorems: the \<open>mweb\<close> descriptor\<close>

lemmas example_defs = example_ext_def example_desc_def example_provider_def empty_fsp_def
  example_origin_def failing_desc_def failing_provider_def

text \<open>
  What \<open>ExpandHelper\<close> and \<open>ExpandPrivate\<close> compute. \<open>ExpandHelper\<close> works at \<open>p\<close>, the fixed index
  converted to \<open>int\<close> when the descriptor carries one and the position \<open>n\<close> otherwise, with
  \<open>m = TaggedHash(ADDRESS, u32_le(p) || scan_secret)\<close>: the single stealth address \<open>(A, B)\<close>,
  \<open>B = spend_pub + m G\<close> and \<open>A = scan_secret B\<close>, when \<open>p\<close> is no sentinel; the master scan pubkey
  at \<open>-1\<close> and the master spend pubkey at \<open>-2\<close>, without address. \<open>ExpandPrivate\<close> of a
  descriptor without fixed index stores \<open>SecretKeys::From(spend_secret).Add(m).Total()\<close>. For
  these descriptors, which have \<open>p = n\<close>, the code does what claim C2 says.
\<close>

lemma MWEB_ExpandHelper_cases:
  "(let p = (case m_mweb_index d of Some i \<Rightarrow> sint i | None \<Rightarrow> n);
        scan = m_master_scan_secret d;
        scan_pk = G_mul x scan;
        m = TaggedHash x ADDRESS (u32_le (word_of_int p) @ scan)
    in
     (p \<noteq> -1 \<and> p \<noteq> -2 \<and>
      GetPubKey (spend_pk_provider d) (-1) provider rc wc = (Some (spk, oi), wc') \<longrightarrow>
        (let B = point_add x (take 33 spk) (G_mul x m); A = point_mul x scan B
         in \<exists>out'. MWEB_ExpandHelper x d n provider rc os out wc =
                     (True, [StealthAddress A B], out', wc'))) \<and>
     (p = -1 \<longrightarrow>
        MWEB_ExpandHelper x d n provider rc os out wc =
          (True, [],
           out\<lparr>pubkeys := emplace (CPubKey_GetID x scan_pk) scan_pk (pubkeys out),
               origins := (case GetKeyOrigin (master_scan_pk_provider d) (-1) of
                             Some orig \<Rightarrow> emplace (CPubKey_GetID x scan_pk) (scan_pk, orig) (origins out)
                           | None \<Rightarrow> origins out)\<rparr>,
           wc)) \<and>
     (p = -2 \<and> GetPubKey (spend_pk_provider d) (-1) provider rc wc = (Some (spk, oi), wc') \<longrightarrow>
        MWEB_ExpandHelper x d n provider rc os out wc =
          (True, [],
           out\<lparr>pubkeys := emplace (PublicKey_GetID x (take 33 spk)) (take 33 spk) (pubkeys out),
               origins := (case GetKeyOrigin (spend_pk_provider d) (-1) of
                             Some orig \<Rightarrow> emplace (PublicKey_GetID x (take 33 spk)) (take 33 spk, orig) (origins out)
                           | None \<Rightarrow> origins out)\<rparr>,
           wc')) \<and>
     (m_mweb_index d = None \<and> n \<noteq> -1 \<and> n \<noteq> -2 \<and>
      GetPrivKey (spend_pk_provider d) (-1) provider = Some sk \<longrightarrow>
        (let key = CKey_Set x (SecretKeys_Total x (take 32 (keydata sk)) m) True
         in MWEB_ExpandPrivate x d n provider out =
              out\<lparr>keys := emplace (CPubKey_GetID x (CKey_GetPubKey x key)) key (keys out)\<rparr>)))"
  by (auto simp: Let_def MWEB_ExpandHelper_def MWEB_ExpandPrivate_def GetMasterSpendPubKey_def
        GetMasterSpendKey_def MWEB_pubkey_args_def Hasher_Append_u32_Append_hash_def PublicKey_From_def
        PublicKey_Add_def PublicKey_Mul_def split: option.splits)



text \<open>The lemma at the ranged example descriptor: position 7, the two sentinels, and
  private expansion at position 7.\<close>

lemma MWEB_ExpandHelper_cases_example:
  "fst (snd (MWEB_ExpandHelper example_ext (example_desc None) 7 () None [] empty_fsp None)) =
     [StealthAddress [5, 0x47, 6, 0x47, 0xAD, 7, 0, 0, 0, 5] [0x47, 6, 0x47, 0xAD, 7, 0, 0, 0, 5]] \<and>
   fst (snd (MWEB_ExpandHelper example_ext (example_desc None) (-1) () None [] empty_fsp None)) = [] \<and>
   pubkeys (fst (snd (snd (MWEB_ExpandHelper example_ext (example_desc None) (-1) () None [] empty_fsp None))))
     [0x1D, 0x47, 5] = Some [0x47, 5] \<and>
   pubkeys (fst (snd (snd (MWEB_ExpandHelper example_ext (example_desc None) (-2) () None [] empty_fsp None))))
     [0x1D, 0x47, 6] = Some [0x47, 6] \<and>
   keys (MWEB_ExpandPrivate example_ext (example_desc None) 7 () empty_fsp)
     [0x1D, 0x47, 6, 0xAD, 7, 0, 0, 0, 5] = Some \<lparr>keydata = [6, 0xAD, 7, 0, 0, 0, 5], fCompressed = True\<rparr>"
proof -
  have g: "GetPubKey (spend_pk_provider (example_desc None)) (- 1) () None None =
    (Some ([0x47, 6], example_origin), None)"
    by (simp add: example_defs)
  have k: "GetPrivKey (spend_pk_provider (example_desc None)) (- 1) () = Some \<lparr>keydata = [6], fCompressed = True\<rparr>"
    by (simp add: example_defs)
  have i: "m_mweb_index (example_desc None) = None" by (simp add: example_defs)
  note t = MWEB_ExpandHelper_cases [where d = "example_desc None" and x = example_ext and provider = "()" and rc = None
      and wc = None and os = "[]" and out = empty_fsp and spk = "[0x47, 6]"
      and oi = example_origin
      and wc' = None and sk = "\<lparr>keydata = [6], fCompressed = True\<rparr>",
      unfolded Let_def i option.case]
  from t [where n = 7, THEN conjunct1] g
  have 1: "fst (snd (MWEB_ExpandHelper example_ext (example_desc None) 7 () None [] empty_fsp None)) =
     [StealthAddress [5, 0x47, 6, 0x47, 0xAD, 7, 0, 0, 0, 5] [0x47, 6, 0x47, 0xAD, 7, 0, 0, 0, 5]]"
    by (auto simp: example_defs u32_le_def)
  from t [where n = "-1", THEN conjunct2, THEN conjunct1]
  have 2: "fst (snd (MWEB_ExpandHelper example_ext (example_desc None) (-1) () None [] empty_fsp None)) = []"
    "pubkeys (fst (snd (snd (MWEB_ExpandHelper example_ext (example_desc None) (-1) () None [] empty_fsp None))))
     [0x1D, 0x47, 5] = Some [0x47, 5]"
    by (simp_all add: example_defs emplace_def)
  from t [where n = "-2", THEN conjunct2, THEN conjunct2, THEN conjunct1] g
  have 3: "pubkeys (fst (snd (snd (MWEB_ExpandHelper example_ext (example_desc None) (-2) () None [] empty_fsp None))))
     [0x1D, 0x47, 6] = Some [0x47, 6]"
    by (simp add: example_defs emplace_def)
  from t [where n = 7, THEN conjunct2, THEN conjunct2, THEN conjunct2] k
  have 4: "keys (MWEB_ExpandPrivate example_ext (example_desc None) 7 () empty_fsp)
     [0x1D, 0x47, 6, 0xAD, 7, 0, 0, 0, 5] = Some \<lparr>keydata = [6, 0xAD, 7, 0, 0, 0, 5], fCompressed = True\<rparr>"
    by (simp add: example_defs emplace_def u32_le_def)
  from 1 2 3 4 show ?thesis by blast
qed


text \<open>
  Claim C2: the position is replaced by the fixed index when the descriptor carries one,
  expansion outputs the address \<open>(A_n, B_n)\<close> and private expansion at \<open>n\<close> produces the spend
  key of that address, made with \<open>m_n\<close>. The code does not do this for a descriptor with a
  fixed index. \<open>ExpandHelper\<close> replaces the position by the index; \<open>ExpandPrivate\<close> does not.
  On the descriptor with the fixed index 7, at position 0, \<open>Expand\<close> outputs the address made
  with \<open>m_7\<close> and \<open>ExpandPrivate\<close> stores the key made with \<open>m_0\<close>, which is not the key of that
  address; at position \<open>-1\<close>, \<open>Expand\<close> outputs the address of index 7 and \<open>ExpandPrivate\<close> stores
  the master scan key. And the \<open>uint32_t\<close> index is assigned to the \<open>int\<close> position before the
  test of the sentinels: the descriptor with the fixed index 4294967295 outputs no address.
\<close>

theorem MWEB_ExpandPrivate_ignores_fixed_index:
  "m_mweb_index (example_desc (Some 7)) = Some 7 \<and>
   fst (snd (MWEB_Expand example_ext (example_desc (Some 7)) 0 () [] empty_fsp None)) =
     [StealthAddress
        (point_mul example_ext [5] (point_add example_ext [0x47, 6]
           (G_mul example_ext (TaggedHash example_ext ADDRESS (u32_le 7 @ [5])))))
        (point_add example_ext [0x47, 6]
           (G_mul example_ext (TaggedHash example_ext ADDRESS (u32_le 7 @ [5]))))] \<and>
   keys (MWEB_ExpandPrivate example_ext (example_desc (Some 7)) 0 () empty_fsp)
     (CPubKey_GetID example_ext (CKey_GetPubKey example_ext
        (CKey_Set example_ext (SecretKeys_Total example_ext [6]
           (TaggedHash example_ext ADDRESS (u32_le 0 @ [5]))) True))) =
     Some (CKey_Set example_ext (SecretKeys_Total example_ext [6]
           (TaggedHash example_ext ADDRESS (u32_le 0 @ [5]))) True) \<and>
   keys (MWEB_ExpandPrivate example_ext (example_desc (Some 7)) 0 () empty_fsp)
     (CPubKey_GetID example_ext (CKey_GetPubKey example_ext
        (CKey_Set example_ext (SecretKeys_Total example_ext [6]
           (TaggedHash example_ext ADDRESS (u32_le 7 @ [5]))) True))) = None \<and>
   fst (snd (MWEB_Expand example_ext (example_desc (Some 7)) (-1) () [] empty_fsp None)) =
     fst (snd (MWEB_Expand example_ext (example_desc (Some 7)) 0 () [] empty_fsp None)) \<and>
   keys (MWEB_ExpandPrivate example_ext (example_desc (Some 7)) (-1) () empty_fsp)
     (CPubKey_GetID example_ext (CKey_GetPubKey example_ext (CKey_Set example_ext [5] True))) =
     Some (CKey_Set example_ext [5] True) \<and>
   fst (snd (MWEB_Expand example_ext (example_desc (Some 4294967295)) 0 () [] empty_fsp None)) =
     []"
  by (simp add: MWEB_Expand_def MWEB_ExpandHelper_def MWEB_ExpandPrivate_def example_defs
        MWEB_pubkey_args_def GetMasterSpendPubKey_def GetMasterSpendKey_def
        Hasher_Append_u32_Append_hash_def PublicKey_Add_def PublicKey_Mul_def PublicKey_From_def
        u32_le_def emplace_def Let_def)

text \<open>
  Claim C10. For every \<open>mweb\<close> descriptor, the string built in \<open>PUBLIC\<close> mode, which
  \<open>ToString\<close> returns with its checksum, and the string built in \<open>NORMALIZED\<close> mode (whenever
  the spend key normalizes, so that a string is built at all) have as first argument the
  WIF encoding \<open>EncodeSecret\<close> of the master scan secret key, after the origin in brackets
  when the scan provider has one: the secret scan key, not a public key.
\<close>

theorem MWEB_public_string_reveals_scan_secret:
  "(let origin_str =
          (case GetKeyOrigin (master_scan_pk_provider d) (-1) of
             Some oi \<Rightarrow> ''['' @ HexStr x (fingerprint oi) @ FormatHDKeypath x (hdkeypath oi) @ '']''
           | None \<Rightarrow> []);
        wif = EncodeSecret x (CKey_Set x (m_master_scan_secret d) True);
        sub = (case m_mweb_index d of
                 Some i \<Rightarrow> (if format_i x i \<noteq> [] then CHR '','' # format_i x i else [])
               | None \<Rightarrow> [])
    in MWEB_ToStringHelper x d arg PUBLIC cache =
         Str (''mweb('' @ origin_str @ wif @ '','' @ ToString (spend_pk_provider d) @ sub @ '')'') \<and>
       MWEB_ToString x d =
         Str (AddChecksum
               (''mweb('' @ origin_str @ wif @ '','' @ ToString (spend_pk_provider d) @ sub @ '')'')) \<and>
       (ToNormalizedString (spend_pk_provider d) a cache = Some s \<longrightarrow>
          MWEB_ToStringHelper x d (Some a) NORMALIZED cache =
            Str (''mweb('' @ origin_str @ wif @ '','' @ s @ sub @ '')'') \<and>
          MWEB_ToNormalizedString x d a out0 cache =
            (True, Str (AddChecksum (''mweb('' @ origin_str @ wif @ '','' @ s @ sub @ '')'')))))"
  by (simp add: Let_def MWEB_ToStringHelper_def MWEB_ToString_def MWEB_ToNormalizedString_def
        MWEB_ToStringSubScriptHelper_def MWEB_pubkey_args_def split: option.splits)

text \<open>The theorem at the example descriptor with the fixed index 7: the string is
  \<open>mweb(WIF,pub,7)\<close> in \<open>PUBLIC\<close> mode and \<open>mweb(WIF,norm,7)\<close> in \<open>NORMALIZED\<close> mode, where \<open>WIF\<close>
  is what the example \<open>EncodeSecret\<close> returns.\<close>

theorem MWEB_public_string_reveals_scan_secret_witness:
  "ToNormalizedString (spend_pk_provider (example_desc (Some 7))) () None = Some ''norm'' \<and>
   MWEB_ToStringHelper example_ext (example_desc (Some 7)) None PUBLIC None = Str ''mweb(WIF,pub,7)'' \<and>
   MWEB_ToStringHelper example_ext (example_desc (Some 7)) (Some ()) NORMALIZED None =
     Str ''mweb(WIF,norm,7)''"
proof -
  have n: "ToNormalizedString (spend_pk_provider (example_desc (Some 7))) () None = Some ''norm''"
    by (simp add: example_defs)
  note t = MWEB_public_string_reveals_scan_secret [where d = "example_desc (Some 7)"
      and x = example_ext and a = "()" and cache = None and s = "''norm''", unfolded Let_def]
  from t [where arg = None, THEN conjunct1]
  have 1: "MWEB_ToStringHelper example_ext (example_desc (Some 7)) None PUBLIC None =
             Str ''mweb(WIF,pub,7)''"
    by (simp add: example_defs)
  from t [where arg = None, THEN conjunct2, THEN conjunct2] n
  have 2: "MWEB_ToStringHelper example_ext (example_desc (Some 7)) (Some ()) NORMALIZED None =
             Str ''mweb(WIF,norm,7)''"
    by (simp add: example_defs)
  from n 1 2 show ?thesis by blast
qed


section \<open>Theorems: failure of an expansion\<close>

text \<open>The base class keeps its promise: when \<open>DescriptorImpl::ExpandHelper\<close> returns
  \<open>false\<close>, \<open>output_scripts\<close> and \<open>out\<close> are as the caller passed them, for every descriptor
  tree, position, provider and caches.\<close>

lemma ExpandHelper_failure_atomic:
  "ExpandHelper x d pos arg read_cache output_scripts out write_cache = Returned False os' out' wc' \<Longrightarrow>
   os' = output_scripts \<and> out' = out"
  by (cases d) (auto split: prod.splits option.splits subs_result.splits)

text \<open>\<open>MWEBDescriptor::ExpandHelper\<close> keeps \<open>out\<close> when it returns \<open>false\<close>, but it has cleared
  \<open>output_scripts\<close> before.\<close>

lemma MWEB_ExpandHelper_failure:
  "MWEB_ExpandHelper x d pos arg read_cache output_scripts out write_cache = (False, os', out', wc') \<Longrightarrow>
   os' = [] \<and> out' = out"
  by (auto simp: MWEB_ExpandHelper_def Let_def split: prod.splits option.splits if_splits)

text \<open>
  Claim C8 says that a failed \<open>Expand\<close> leaves the caller's output-script vector and
  \<open>FlatSigningProvider\<close> exactly as they were. On an \<open>mweb\<close> descriptor whose spend provider
  cannot give the master spend pubkey, \<open>Expand\<close> at position 0 with a vector that holds one
  script returns \<open>false\<close> and the vector is empty afterwards: \<open>output_scripts.clear()\<close> runs
  before the step that fails.
\<close>

theorem MWEB_Expand_failure_clears_output:
  "MWEB_Expand example_ext failing_desc 0 () [ScriptAddress [1]] empty_fsp None =
     (False, [], empty_fsp, None)"
  by (simp add: MWEB_Expand_def MWEB_ExpandHelper_def failing_desc_def failing_provider_def
        GetMasterSpendPubKey_def MWEB_pubkey_args_def)


section \<open>Theorems: PSBT deserialization\<close>

subsection \<open>The results of the readers\<close>

lemma and_then_Inr:
  "and_then r f = Inr b \<longleftrightarrow> (\<exists>a. r = Inr a \<and> f a = Inr b)"
  by (cases r) (simp_all add: and_then_def)

lemma read_vector_Inr: "read_vector s = Inr (v, s') \<longleftrightarrow> s = v # s'"
  by (cases s) (auto simp add: read_vector_def)

lemma UnserializeFromVector_Inr:
  "UnserializeFromVector decode s = Inr (a, s') \<longleftrightarrow> (\<exists>v. s = v # s' \<and> decode v = Some a)"
  by (cases s) (auto simp add: UnserializeFromVector_def split: option.splits)

lemma DeserializeHDKeypaths_Inr:
  "DeserializeHDKeypaths x s key keypaths = Inr (keypaths', s') \<longleftrightarrow>
     keypath_key_valid x key \<and> keypaths (tl key) = None \<and>
     (\<exists>v keypath. s = v # s' \<and> decode_keypath x v = Some keypath \<and>
        keypaths' = keypaths(tl key \<mapsto> keypath))"
  by (auto simp add: DeserializeHDKeypaths_def and_then_Inr UnserializeFromVector_Inr
      emplace_def)

lemma unknown_field_Inr:
  "unknown_field unk key s = Inr (unk', s') \<longleftrightarrow>
     unk key = None \<and> (\<exists>v. s = v # s' \<and> unk' = unk(key \<mapsto> v))"
  by (auto simp add: unknown_field_def and_then_Inr read_vector_Inr emplace_def)

lemma key_once_Inr:
  "key_once kl key d l = Inr kl' \<longleftrightarrow> key \<notin> kl \<and> length key = 1 \<and> kl' = insert key kl"
  by (auto simp add: key_once_def)

lemma key_once_v2_Inr:
  "key_once_v2 kl key ver d l n = Inr kl' \<longleftrightarrow>
     key \<notin> kl \<and> length key = 1 \<and> ver \<noteq> 0 \<and> kl' = insert key kl"
  by (auto simp add: key_once_v2_def)

lemmas field_Inr = and_then_Inr read_vector_Inr UnserializeFromVector_Inr
  DeserializeHDKeypaths_Inr unknown_field_Inr key_once_Inr key_once_v2_Inr

lemmas input_types = PSBT_IN_NON_WITNESS_UTXO_def PSBT_IN_WITNESS_UTXO_def
  PSBT_IN_PARTIAL_SIG_def PSBT_IN_SIGHASH_def PSBT_IN_REDEEMSCRIPT_def
  PSBT_IN_WITNESSSCRIPT_def PSBT_IN_BIP32_DERIVATION_def PSBT_IN_SCRIPTSIG_def
  PSBT_IN_SCRIPTWITNESS_def PSBT_IN_PREVIOUS_TXID_def PSBT_IN_OUTPUT_INDEX_def
  PSBT_IN_SEQUENCE_def PSBT_IN_REQUIRED_TIME_LOCKTIME_def
  PSBT_IN_REQUIRED_HEIGHT_LOCKTIME_def

lemma input_field_step:
  assumes "input_field x this kl key s = Inr (this', kl', s')"
  shows "\<exists>v. s = v # s' \<and> \<not> input_seen x this kl key \<and> input_seen x this' kl' key \<and>
           (hd key \<in> input_singular \<longrightarrow> length key = 1) \<and> input_stored x this' key v"
  using assms
  by (auto simp add: input_field_def Let_def field_Inr input_seen_def input_stored_def
      input_singular_def input_types emplace_def split: if_splits option.splits)

lemma input_field_mono:
  assumes "input_field x this kl key s = Inr (this', kl', s')"
  shows "(input_seen x this kl k \<longrightarrow> input_seen x this' kl' k) \<and>
         (input_stored x this k w \<longrightarrow> input_stored x this' k w)"
  using assms
  by (auto simp add: input_field_def Let_def field_Inr input_seen_def input_stored_def
      input_singular_def input_types emplace_def split: if_splits option.splits)

subsection \<open>The keys of a map that has been read\<close>

lemma keys_ok_Cons:
  "keys_ok sing st ((key, v) # recs) \<longleftrightarrow>
     key \<notin> fst ` set recs \<and> (hd key \<in> sing \<longrightarrow> length key = 1) \<and> st key v \<and>
     keys_ok sing st recs"
  by (auto simp add: keys_ok_def)

lemma keys_ok_Nil: "keys_ok sing st []"
  by (simp add: keys_ok_def)

lemma keys_ok_mono:
  "keys_ok sing st recs \<Longrightarrow> (\<And>k w. st k w \<Longrightarrow> st' k w) \<Longrightarrow> keys_ok sing st' recs"
  by (auto simp add: keys_ok_def list_all_iff)

lemma input_map_keys:
  assumes "input_map x this kl s = Inr (r, rest)"
  shows "keys_ok input_singular (input_stored x r) (map_records s) \<and>
         (\<forall>k \<in> fst ` set (map_records s). \<not> input_seen x this kl k) \<and>
         (\<forall>k w. input_stored x this k w \<longrightarrow> input_stored x r k w)"
  using assms
proof (induction x this kl s rule: input_map.induct)
  case (1 x this kl)
  then show ?case by simp
next
  case (2 x this kl key s)
  show ?case
  proof (cases "key = []")
    case True
    with 2(2) have "r = this" by simp
    with True show ?thesis by (cases s) (simp_all add: keys_ok_Nil)
  next
    case False
    with 2(2) obtain this' kl' s' where
      f: "input_field x this kl key s = Inr (this', kl', s')" and
      m: "input_map x this' kl' s' = Inr (r, rest)"
      by (auto split: sum.splits)
    from input_field_step [OF f] obtain v where
      s: "s = v # s'" and n: "\<not> input_seen x this kl key" and
      y: "input_seen x this' kl' key" and
      l: "hd key \<in> input_singular \<longrightarrow> length key = 1" and
      st: "input_stored x this' key v"
      by blast
    note mono = input_field_mono [OF f]
    note ih = 2(1) [OF False f refl refl m]
    from ih y have fresh: "key \<notin> fst ` set (map_records s')" by blast
    from ih st have "input_stored x r key v" by blast
    with ih fresh l have 1: "keys_ok input_singular (input_stored x r) ((key, v) # map_records s')"
      by (simp add: keys_ok_Cons)
    from ih mono n have 2: "\<forall>k \<in> fst ` set ((key, v) # map_records s'). \<not> input_seen x this kl k"
      by auto
    from ih mono have 3: "\<forall>k w. input_stored x this k w \<longrightarrow> input_stored x r k w"
      by blast
    from 1 2 3 show ?thesis using False by (simp add: s)
  qed
qed

lemmas output_types = PSBT_OUT_REDEEMSCRIPT_def PSBT_OUT_WITNESSSCRIPT_def
  PSBT_OUT_BIP32_DERIVATION_def PSBT_OUT_AMOUNT_def PSBT_OUT_SCRIPT_def

lemmas global_types = PSBT_GLOBAL_UNSIGNED_TX_def PSBT_GLOBAL_TX_VERSION_def
  PSBT_GLOBAL_FALLBACK_LOCKTIME_def PSBT_GLOBAL_INPUT_COUNT_def
  PSBT_GLOBAL_OUTPUT_COUNT_def PSBT_GLOBAL_TX_MODIFIABLE_def PSBT_GLOBAL_VERSION_def

lemma output_field_step:
  assumes "output_field x this kl key s = Inr (this', kl', s')"
  shows "\<exists>v. s = v # s' \<and> \<not> output_seen this kl key \<and> output_seen this' kl' key \<and>
           (hd key \<in> output_singular \<longrightarrow> length key = 1) \<and> output_stored x this' key v"
  using assms
  by (auto simp add: output_field_def Let_def field_Inr output_seen_def output_stored_def
      output_singular_def output_types emplace_def split: if_splits option.splits)

lemma output_field_mono:
  assumes "output_field x this kl key s = Inr (this', kl', s')"
  shows "(output_seen this kl k \<longrightarrow> output_seen this' kl' k) \<and>
         (output_stored x this k w \<longrightarrow> output_stored x this' k w)"
  using assms
  by (auto simp add: output_field_def Let_def field_Inr output_seen_def output_stored_def
      output_singular_def output_types emplace_def split: if_splits option.splits)

lemma output_map_keys:
  assumes "output_map x this kl s = Inr (r, rest)"
  shows "keys_ok output_singular (output_stored x r) (map_records s) \<and>
         (\<forall>k \<in> fst ` set (map_records s). \<not> output_seen this kl k) \<and>
         (\<forall>k w. output_stored x this k w \<longrightarrow> output_stored x r k w)"
  using assms
proof (induction x this kl s rule: output_map.induct)
  case (1 x this kl)
  then show ?case by simp
next
  case (2 x this kl key s)
  show ?case
  proof (cases "key = []")
    case True
    with 2(2) have "r = this" by simp
    with True show ?thesis by (cases s) (simp_all add: keys_ok_Nil)
  next
    case False
    with 2(2) obtain this' kl' s' where
      f: "output_field x this kl key s = Inr (this', kl', s')" and
      m: "output_map x this' kl' s' = Inr (r, rest)"
      by (auto split: sum.splits)
    from output_field_step [OF f] obtain v where
      s: "s = v # s'" and n: "\<not> output_seen this kl key" and
      y: "output_seen this' kl' key" and
      l: "hd key \<in> output_singular \<longrightarrow> length key = 1" and
      st: "output_stored x this' key v"
      by blast
    note mono = output_field_mono [OF f]
    note ih = 2(1) [OF False f refl refl m]
    from ih y have fresh: "key \<notin> fst ` set (map_records s')" by blast
    from ih st have "output_stored x r key v" by blast
    with ih fresh l have 1:
      "keys_ok output_singular (output_stored x r) ((key, v) # map_records s')"
      by (simp add: keys_ok_Cons)
    from ih mono n have 2:
      "\<forall>k \<in> fst ` set ((key, v) # map_records s'). \<not> output_seen this kl k"
      by auto
    from ih mono have 3: "\<forall>k w. output_stored x this k w \<longrightarrow> output_stored x r k w"
      by blast
    from 1 2 3 show ?thesis using False by (simp add: s)
  qed
qed

lemma global_field_step:
  assumes "global_field x this l key s = Inr (this', l', s')"
  shows "\<exists>v. s = v # s' \<and> \<not> global_seen this (key_lookup l) key \<and>
           global_seen this' (key_lookup l') key \<and>
           (hd key \<in> global_singular \<longrightarrow> length key = 1) \<and> global_stored this' key v"
  using assms
  by (auto simp add: global_field_def Let_def field_Inr global_seen_def global_stored_def
      global_singular_def global_types emplace_def split: if_splits option.splits)

lemma global_field_mono:
  assumes "global_field x this l key s = Inr (this', l', s')"
  shows "(global_seen this (key_lookup l) k \<longrightarrow> global_seen this' (key_lookup l') k) \<and>
         (global_stored this k w \<longrightarrow> global_stored this' k w)"
  using assms
  by (auto simp add: global_field_def Let_def field_Inr global_seen_def global_stored_def
      global_singular_def global_types emplace_def split: if_splits option.splits)

lemma global_map_keys:
  assumes "global_map x this l s = Inr (r, l', rest)"
  shows "keys_ok global_singular (global_stored r) (map_records s) \<and>
         (\<forall>k \<in> fst ` set (map_records s). \<not> global_seen this (key_lookup l) k) \<and>
         (\<forall>k w. global_stored this k w \<longrightarrow> global_stored r k w)"
  using assms
proof (induction x this l s rule: global_map.induct)
  case (1 x this l)
  then show ?case by simp
next
  case (2 x this l key s)
  show ?case
  proof (cases "key = []")
    case True
    with 2(2) have "r = this" by simp
    with True show ?thesis by (cases s) (simp_all add: keys_ok_Nil)
  next
    case False
    with 2(2) obtain this' l2 s' where
      f: "global_field x this l key s = Inr (this', l2, s')" and
      m: "global_map x this' l2 s' = Inr (r, l', rest)"
      by (auto split: sum.splits)
    from global_field_step [OF f] obtain v where
      s: "s = v # s'" and n: "\<not> global_seen this (key_lookup l) key" and
      y: "global_seen this' (key_lookup l2) key" and
      l: "hd key \<in> global_singular \<longrightarrow> length key = 1" and
      st: "global_stored this' key v"
      by blast
    note mono = global_field_mono [OF f]
    note ih = 2(1) [OF False f refl refl m]
    from ih y have fresh: "key \<notin> fst ` set (map_records s')" by blast
    from ih st have "global_stored r key v" by blast
    with ih fresh l have 1:
      "keys_ok global_singular (global_stored r) ((key, v) # map_records s')"
      by (simp add: keys_ok_Cons)
    from ih mono n have 2:
      "\<forall>k \<in> fst ` set ((key, v) # map_records s'). \<not> global_seen this (key_lookup l) k"
      by auto
    from ih mono have 3: "\<forall>k w. global_stored this k w \<longrightarrow> global_stored r k w"
      by blast
    from 1 2 3 show ?thesis using False by (simp add: s)
  qed
qed

lemma PSBTInput_Unserialize_map:
  "PSBTInput_Unserialize x this s = Inr (r, rest) \<Longrightarrow> input_map x this {} s = Inr (r, rest)"
  by (auto simp add: PSBTInput_Unserialize_def and_then_Inr split: if_splits)

lemma PSBTOutput_Unserialize_map:
  "PSBTOutput_Unserialize x this s = Inr (r, rest) \<Longrightarrow> output_map x this {} s = Inr (r, rest)"
  by (auto simp add: PSBTOutput_Unserialize_def and_then_Inr split: if_splits)

lemma input_field_multi:
  "(hd key = PSBT_IN_PARTIAL_SIG \<and> (length key = 66 \<or> length key = 34) \<and>
      IsFullyValid x (tl key) \<and> partial_sigs inp (GetID x (tl key)) = None \<longrightarrow>
      input_field x inp kl key (v # s) =
        Inr (inp\<lparr>partial_sigs := (partial_sigs inp)(GetID x (tl key) \<mapsto> (tl key, v))\<rparr>,
             kl, s)) \<and>
   (hd key = PSBT_IN_BIP32_DERIVATION \<and> keypath_key_valid x key \<and>
      hd_keypaths inp (tl key) = None \<and> decode_keypath x v = Some keypath \<longrightarrow>
      input_field x inp kl key (v # s) =
        Inr (inp\<lparr>hd_keypaths := (hd_keypaths inp)(tl key \<mapsto> keypath)\<rparr>, kl, s)) \<and>
   (hd key \<notin> input_singular \<and> hd key \<noteq> PSBT_IN_PARTIAL_SIG \<and>
      hd key \<noteq> PSBT_IN_BIP32_DERIVATION \<and> unknown inp key = None \<longrightarrow>
      input_field x inp kl key (v # s) =
        Inr (inp\<lparr>unknown := (unknown inp)(key \<mapsto> v)\<rparr>, kl, s))"
  by (simp add: input_field_def Let_def and_then_def read_vector_def
      UnserializeFromVector_def DeserializeHDKeypaths_def unknown_field_def emplace_def
      input_singular_def input_types CPubKey_SIZE_def CPubKey_COMPRESSED_SIZE_def)

subsection \<open>The members that the version constraints read\<close>

lemma has_field_Cons:
  "key \<noteq> [] \<Longrightarrow> has_field t (key # v # s) \<longleftrightarrow> hd key = t \<or> has_field t s"
  by (simp add: has_field_def)

lemma has_field_sep: "\<not> has_field t ([] # s)"
  by (cases s) (simp_all add: has_field_def)

lemma version_field_Cons:
  "key \<noteq> [] \<Longrightarrow> version_field x (key # v # s) =
     (if hd key = PSBT_GLOBAL_VERSION then decode_u32 x v else version_field x s)"
  by (simp add: version_field_def)

lemma version_field_none: "\<not> has_field PSBT_GLOBAL_VERSION s \<Longrightarrow> version_field x s = None"
  by (auto simp add: version_field_def has_field_def list_ex_iff filter_empty_conv
      split: list.splits)

lemma unsigned_tx_field_Cons:
  "key \<noteq> [] \<Longrightarrow> unsigned_tx_field x (key # v # s) =
     (if hd key = PSBT_GLOBAL_UNSIGNED_TX then decode_tx x v else unsigned_tx_field x s)"
  by (simp add: unsigned_tx_field_def)

lemma unsigned_tx_field_none:
  "\<not> has_field PSBT_GLOBAL_UNSIGNED_TX s \<Longrightarrow> unsigned_tx_field x s = None"
  by (auto simp add: unsigned_tx_field_def has_field_def list_ex_iff filter_empty_conv
      split: list.splits)

text \<open>What one turn of the loop of the global map does to the members that the version
  constraints read.\<close>

lemma global_field_members:
  assumes "global_field x this l key (v # s) = Inr (this', l', s')"
  shows "(tx this' = (if hd key = PSBT_GLOBAL_UNSIGNED_TX then decode_tx x v else tx this)) \<and>
         (hd key = PSBT_GLOBAL_UNSIGNED_TX \<longrightarrow>
            (\<exists>t. decode_tx x v = Some t \<and>
               list_all (\<lambda>txin. scriptSig txin = [] \<and> scriptWitness txin = []) (vin t))) \<and>
         (tx_version this' \<noteq> None \<longleftrightarrow>
            tx_version this \<noteq> None \<or> hd key = PSBT_GLOBAL_TX_VERSION) \<and>
         (fallback_locktime this' \<noteq> None \<longleftrightarrow>
            fallback_locktime this \<noteq> None \<or> hd key = PSBT_GLOBAL_FALLBACK_LOCKTIME) \<and>
         (m_tx_modifiable this' \<noteq> None \<longleftrightarrow>
            m_tx_modifiable this \<noteq> None \<or> hd key = PSBT_GLOBAL_TX_MODIFIABLE) \<and>
         (found_input_count l' \<longleftrightarrow> found_input_count l \<or> hd key = PSBT_GLOBAL_INPUT_COUNT) \<and>
         (found_output_count l' \<longleftrightarrow>
            found_output_count l \<or> hd key = PSBT_GLOBAL_OUTPUT_COUNT) \<and>
         (m_version this' =
            (if hd key = PSBT_GLOBAL_VERSION then decode_u32 x v else m_version this)) \<and>
         (hd key = PSBT_GLOBAL_VERSION \<longrightarrow>
            (\<exists>ver. decode_u32 x v = Some ver \<and> ver \<le> 2))"
  using assms
  by (auto simp add: global_field_def Let_def field_Inr global_types PSBT_HIGHEST_VERSION_def
      list_all_iff list_ex_iff split: if_splits)

lemma singular_once:
  assumes "keys_ok sing st ((key, v) # recs)" and "hd key \<in> sing"
  shows "\<not> list_ex (\<lambda>(k, w). hd k = hd key) recs"
proof
  assume "list_ex (\<lambda>(k, w). hd k = hd key) recs"
  then obtain k w where m: "(k, w) \<in> set recs" and h: "hd k = hd key"
    by (auto simp add: list_ex_iff)
  from assms m h have "length k = 1" "length key = 1" "key \<notin> fst ` set recs"
    by (auto simp add: keys_ok_def list_all_iff)
  moreover have "a = b" if "length a = 1" "length b = 1" "hd a = hd b" for a b :: bytes
    using that by (cases a; cases b) auto
  ultimately have "k = key" using h by blast
  with m \<open>key \<notin> fst ` set recs\<close> show False by force
qed

lemma global_map_members:
  assumes "global_map x this l s = Inr (g, l', rest)"
  shows "(tx g = (if has_field PSBT_GLOBAL_UNSIGNED_TX s then unsigned_tx_field x s
                  else tx this)) \<and>
         (has_field PSBT_GLOBAL_UNSIGNED_TX s \<longrightarrow> unsigned_tx_present x s) \<and>
         (tx_version g \<noteq> None \<longleftrightarrow>
            tx_version this \<noteq> None \<or> has_field PSBT_GLOBAL_TX_VERSION s) \<and>
         (fallback_locktime g \<noteq> None \<longleftrightarrow>
            fallback_locktime this \<noteq> None \<or> has_field PSBT_GLOBAL_FALLBACK_LOCKTIME s) \<and>
         (m_tx_modifiable g \<noteq> None \<longleftrightarrow>
            m_tx_modifiable this \<noteq> None \<or> has_field PSBT_GLOBAL_TX_MODIFIABLE s) \<and>
         (found_input_count l' \<longleftrightarrow>
            found_input_count l \<or> has_field PSBT_GLOBAL_INPUT_COUNT s) \<and>
         (found_output_count l' \<longleftrightarrow>
            found_output_count l \<or> has_field PSBT_GLOBAL_OUTPUT_COUNT s) \<and>
         (m_version g = (if has_field PSBT_GLOBAL_VERSION s then version_field x s
                         else m_version this)) \<and>
         (has_field PSBT_GLOBAL_VERSION s \<longrightarrow>
            (\<exists>ver. version_field x s = Some ver \<and> ver \<le> 2))"
  using assms
proof (induction x this l s rule: global_map.induct)
  case (1 x this l)
  then show ?case by simp
next
  case (2 x this l key s)
  show ?case
  proof (cases "key = []")
    case True
    with 2(2) have "g = this" "l' = l" by simp_all
    with True show ?thesis by (simp add: has_field_sep)
  next
    case False
    with 2(2) obtain this' l2 s' where
      f: "global_field x this l key s = Inr (this', l2, s')" and
      m: "global_map x this' l2 s' = Inr (g, l', rest)"
      by (auto split: sum.splits)
    from global_field_step [OF f] obtain v where s: "s = v # s'" by blast
    note mem = global_field_members [OF f [unfolded s]]
    note ih = 2(1) [OF False f refl refl m]
    from global_map_keys [OF 2(2)] False
    have ok: "keys_ok global_singular (global_stored g) ((key, v) # map_records s')"
      by (simp add: s)
    have once: "\<not> has_field (hd key) s'" if "hd key \<in> global_singular"
      using singular_once [OF ok that] by (simp add: has_field_def)
    have u: "\<not> has_field PSBT_GLOBAL_UNSIGNED_TX s'" if "hd key = PSBT_GLOBAL_UNSIGNED_TX"
      using once that by (simp add: global_singular_def)
    have w: "\<not> has_field PSBT_GLOBAL_VERSION s'" if "hd key = PSBT_GLOBAL_VERSION"
      using once that by (simp add: global_singular_def)
    note hf = has_field_Cons [OF False, of _ v s']
    have a: "tx g = (if has_field PSBT_GLOBAL_UNSIGNED_TX (key # s) then
        unsigned_tx_field x (key # s) else tx this)"
    proof (cases "hd key = PSBT_GLOBAL_UNSIGNED_TX")
      case True
      with mem have "tx this' = decode_tx x v" by simp
      moreover from ih u [OF True] have "tx g = tx this'" by simp
      ultimately show ?thesis using True False
        by (simp add: s hf unsigned_tx_field_Cons)
    next
      case F: False
      with mem have "tx this' = tx this" by simp
      moreover from ih have "tx g = (if has_field PSBT_GLOBAL_UNSIGNED_TX s' then
        unsigned_tx_field x s' else tx this')" by simp
      ultimately show ?thesis using F False
        by (simp add: s hf unsigned_tx_field_Cons)
    qed
    have b: "has_field PSBT_GLOBAL_UNSIGNED_TX (key # s) \<longrightarrow> unsigned_tx_present x (key # s)"
    proof (cases "hd key = PSBT_GLOBAL_UNSIGNED_TX")
      case True
      with mem obtain t where "decode_tx x v = Some t"
        "list_all (\<lambda>txin. scriptSig txin = [] \<and> scriptWitness txin = []) (vin t)"
        by blast
      then show ?thesis using True False
        by (simp add: s unsigned_tx_field_Cons unsigned_tx_present_def)
    next
      case F: False
      from ih have "has_field PSBT_GLOBAL_UNSIGNED_TX s' \<longrightarrow> unsigned_tx_present x s'"
        by simp
      then show ?thesis using F False
        by (simp add: s hf unsigned_tx_field_Cons unsigned_tx_present_def)
    qed
    have c1: "tx_version g \<noteq> None \<longleftrightarrow>
        tx_version this \<noteq> None \<or> has_field PSBT_GLOBAL_TX_VERSION (key # s)"
    proof -
      from mem have "tx_version this' \<noteq> None \<longleftrightarrow>
        tx_version this \<noteq> None \<or> hd key = PSBT_GLOBAL_TX_VERSION" by simp
      moreover from ih have "tx_version g \<noteq> None \<longleftrightarrow>
        tx_version this' \<noteq> None \<or> has_field PSBT_GLOBAL_TX_VERSION s'" by simp
      ultimately show ?thesis unfolding s hf by blast
    qed
    have c2: "fallback_locktime g \<noteq> None \<longleftrightarrow>
        fallback_locktime this \<noteq> None \<or> has_field PSBT_GLOBAL_FALLBACK_LOCKTIME (key # s)"
    proof -
      from mem have "fallback_locktime this' \<noteq> None \<longleftrightarrow>
        fallback_locktime this \<noteq> None \<or> hd key = PSBT_GLOBAL_FALLBACK_LOCKTIME" by simp
      moreover from ih have "fallback_locktime g \<noteq> None \<longleftrightarrow>
        fallback_locktime this' \<noteq> None \<or> has_field PSBT_GLOBAL_FALLBACK_LOCKTIME s'" by simp
      ultimately show ?thesis unfolding s hf by blast
    qed
    have c3: "m_tx_modifiable g \<noteq> None \<longleftrightarrow>
        m_tx_modifiable this \<noteq> None \<or> has_field PSBT_GLOBAL_TX_MODIFIABLE (key # s)"
    proof -
      from mem have "m_tx_modifiable this' \<noteq> None \<longleftrightarrow>
        m_tx_modifiable this \<noteq> None \<or> hd key = PSBT_GLOBAL_TX_MODIFIABLE" by simp
      moreover from ih have "m_tx_modifiable g \<noteq> None \<longleftrightarrow>
        m_tx_modifiable this' \<noteq> None \<or> has_field PSBT_GLOBAL_TX_MODIFIABLE s'" by simp
      ultimately show ?thesis unfolding s hf by blast
    qed
    have c4: "found_input_count l' \<longleftrightarrow>
        found_input_count l \<or> has_field PSBT_GLOBAL_INPUT_COUNT (key # s)"
    proof -
      from mem have "found_input_count l2 \<longleftrightarrow>
        found_input_count l \<or> hd key = PSBT_GLOBAL_INPUT_COUNT" by simp
      moreover from ih have "found_input_count l' \<longleftrightarrow>
        found_input_count l2 \<or> has_field PSBT_GLOBAL_INPUT_COUNT s'" by simp
      ultimately show ?thesis unfolding s hf by blast
    qed
    have c5: "found_output_count l' \<longleftrightarrow>
        found_output_count l \<or> has_field PSBT_GLOBAL_OUTPUT_COUNT (key # s)"
    proof -
      from mem have "found_output_count l2 \<longleftrightarrow>
        found_output_count l \<or> hd key = PSBT_GLOBAL_OUTPUT_COUNT" by simp
      moreover from ih have "found_output_count l' \<longleftrightarrow>
        found_output_count l2 \<or> has_field PSBT_GLOBAL_OUTPUT_COUNT s'" by simp
      ultimately show ?thesis unfolding s hf by blast
    qed
    have d: "m_version g = (if has_field PSBT_GLOBAL_VERSION (key # s) then
        version_field x (key # s) else m_version this)"
    proof (cases "hd key = PSBT_GLOBAL_VERSION")
      case True
      with mem have "m_version this' = decode_u32 x v" by simp
      moreover from ih w [OF True] have "m_version g = m_version this'" by simp
      ultimately show ?thesis using True False
        by (simp add: s hf version_field_Cons)
    next
      case F: False
      with mem have "m_version this' = m_version this" by simp
      moreover from ih have "m_version g = (if has_field PSBT_GLOBAL_VERSION s' then
        version_field x s' else m_version this')" by simp
      ultimately show ?thesis using F False
        by (simp add: s hf version_field_Cons)
    qed
    have e: "has_field PSBT_GLOBAL_VERSION (key # s) \<longrightarrow>
        (\<exists>ver. version_field x (key # s) = Some ver \<and> ver \<le> 2)"
    proof (cases "hd key = PSBT_GLOBAL_VERSION")
      case True
      with mem obtain ver where "decode_u32 x v = Some ver" "ver \<le> 2" by blast
      then show ?thesis using True False by (simp add: s version_field_Cons)
    next
      case F: False
      from ih have "has_field PSBT_GLOBAL_VERSION s' \<longrightarrow>
        (\<exists>ver. version_field x s' = Some ver \<and> ver \<le> 2)" by simp
      then show ?thesis using F False by (simp add: s hf version_field_Cons)
    qed
    from a b c1 c2 c3 c4 c5 d e show ?thesis by simp
  qed
qed

lemma version_constraints_Inr:
  "version_constraints this l ver = Inr () \<longleftrightarrow>
     (ver = 0 \<and> tx this \<noteq> None \<and> tx_version this = None \<and> fallback_locktime this = None \<and>
      \<not> found_input_count l \<and> \<not> found_output_count l \<and> m_tx_modifiable this = None) \<or>
     (2 \<le> ver \<and> tx_version this \<noteq> None \<and> found_input_count l \<and> found_output_count l \<and>
      tx this = None)"
proof -
  have "ver = 0 \<or> ver = 1 \<or> 2 \<le> ver"
    by unat_arith
  moreover have "\<not> (2 \<le> (0 :: 32 word))" "\<not> (2 \<le> (1 :: 32 word))"
    by (simp_all add: word_le_nat_alt)
  ultimately show ?thesis
    by (auto simp add: version_constraints_def)
qed

lemma deserialize_global:
  assumes "PartiallySignedTransaction_deserialize x magic s = Inr (p, rest)"
  shows "\<exists>g l s1. global_map x PartiallySignedTransaction_new global_locals_new s =
            Inr (g, l, s1) \<and> version_constraints g l (GetVersion g) = Inr ()"
proof -
  from assms have m: "magic = PSBT_MAGIC_BYTES"
    by (simp add: PartiallySignedTransaction_deserialize_def
      PartiallySignedTransaction_Unserialize_def split: if_splits)
  from assms [unfolded PartiallySignedTransaction_deserialize_def
      PartiallySignedTransaction_Unserialize_def m]
  obtain a where g: "global_map x PartiallySignedTransaction_new global_locals_new s = Inr a"
    and r: "(case a of (this, l, s) \<Rightarrow>
        let psbt_ver = GetVersion this in
        and_then (version_constraints this l psbt_ver) (\<lambda>_.
        and_then (read_inputs x psbt_ver (input_count l) this 0 s) (\<lambda>(this, s).
        if of_nat (length (inputs this)) \<noteq> input_count l
        then Inl (failure
           ''Inputs provided does not match the number of inputs in transaction.'')
        else
        and_then (read_outputs x psbt_ver (output_count l) this 0 s) (\<lambda>(this, s).
        if of_nat (length (outputs this)) \<noteq> output_count l
        then Inl (failure
           ''Outputs provided does not match the number of outputs in transaction.'')
        else Inr (CacheUnsignedTxPieces x this, s))))) = Inr (p, rest)"
    by (simp only: if_False simp_thms and_then_Inr) blast
  obtain g0 l0 s1 where a: "a = (g0, l0, s1)" by (cases a)
  from r [unfolded a prod.case Let_def and_then_Inr]
  have "version_constraints g0 l0 (GetVersion g0) = Inr ()" by auto
  with g a show ?thesis by blast
qed

subsection \<open>Running the functions on the examples\<close>

lemmas psbt_eval = and_then_def read_vector_def UnserializeFromVector_def key_once_def
  key_once_v2_def DeserializeHDKeypaths_def unknown_field_def emplace_def Let_def
  example_psbt_ext_def example_tx_def example_u32_def example_byte_def
  example_pubkey1_def example_pubkey2_def CPubKey_SIZE_def CPubKey_COMPRESSED_SIZE_def
  LOCKTIME_THRESHOLD_def PSBT_HIGHEST_VERSION_def input_types output_types global_types

declare read_inputs.simps [simp del] read_outputs.simps [simp del]

lemmas psbt_run = PartiallySignedTransaction_deserialize_def
  PartiallySignedTransaction_Unserialize_def PartiallySignedTransaction_new_def
  global_locals_new_def global_field_def GetVersion_def version_constraints_def
  read_inputs.simps read_outputs.simps PSBTInput_Unserialize_def PSBTInput_new_def
  input_field_def utxo_mismatch_def PSBT_MAGIC_BYTES_def psbt_eval


section \<open>Claims on PSBT deserialization\<close>

text \<open>
  Claim C5. A map (of an input, of an output, the global map) that is read without error has
  no raw key twice: a key identical to one already seen in the map is fatal. In such a map
  the key of every field of singular nature is one byte long, and every entry of a type with
  several entries is in the object: a partial signature under the id of the pubkey of its
  key-data, a keypath under the pubkey of its key-data, an entry of unknown type under its
  raw key (\<open>keys_ok\<close>). And an entry of such a type is accepted whenever its key-data is new to
  the object, whatever else has been read: a partial signature with a valid pubkey of 33 or
  65 bytes and an id without signature yet, a keypath with a valid key and a pubkey without
  keypath yet, an unknown entry with a key not yet among the unknown ones.
\<close>

theorem PSBT_duplicate_keys:
  "(PSBTInput_Unserialize x inp s = Inr (inp', rest) \<longrightarrow>
      keys_ok input_singular (input_stored x inp') (map_records s)) \<and>
   (PSBTOutput_Unserialize x outp s = Inr (outp', rest) \<longrightarrow>
      keys_ok output_singular (output_stored x outp') (map_records s)) \<and>
   (global_map x this l s = Inr (this', l', rest) \<longrightarrow>
      keys_ok global_singular (global_stored this') (map_records s)) \<and>
   (hd key = PSBT_IN_PARTIAL_SIG \<and> (length key = 66 \<or> length key = 34) \<and>
      IsFullyValid x (tl key) \<and> partial_sigs inp (GetID x (tl key)) = None \<longrightarrow>
      input_field x inp kl key (v # s) =
        Inr (inp\<lparr>partial_sigs := (partial_sigs inp)(GetID x (tl key) \<mapsto> (tl key, v))\<rparr>,
             kl, s)) \<and>
   (hd key = PSBT_IN_BIP32_DERIVATION \<and> keypath_key_valid x key \<and>
      hd_keypaths inp (tl key) = None \<and> decode_keypath x v = Some keypath \<longrightarrow>
      input_field x inp kl key (v # s) =
        Inr (inp\<lparr>hd_keypaths := (hd_keypaths inp)(tl key \<mapsto> keypath)\<rparr>, kl, s)) \<and>
   (hd key \<notin> input_singular \<and> hd key \<noteq> PSBT_IN_PARTIAL_SIG \<and>
      hd key \<noteq> PSBT_IN_BIP32_DERIVATION \<and> unknown inp key = None \<longrightarrow>
      input_field x inp kl key (v # s) =
        Inr (inp\<lparr>unknown := (unknown inp)(key \<mapsto> v)\<rparr>, kl, s))"
  using input_map_keys [OF PSBTInput_Unserialize_map, of x inp s inp' rest]
    output_map_keys [OF PSBTOutput_Unserialize_map, of x outp s outp' rest]
    global_map_keys [of x this l s this' l' rest]
    input_field_multi [of key x inp kl v s keypath]
  by blast

text \<open>
  The theorem on the example maps: an input map with two partial signatures, two keypaths and
  two unknown entries is read and keeps them; the same map after a second entry \<open>FC 01\<close> is
  refused.
\<close>

theorem PSBT_duplicate_keys_witness:
  "\<not> isl (PSBTInput_Unserialize example_psbt_ext (PSBTInput_new 0) example_input_map) \<and>
   distinct (map fst (map_records example_input_map)) \<and>
   partial_sigs (fst (projr (PSBTInput_Unserialize example_psbt_ext (PSBTInput_new 0)
       example_input_map))) example_pubkey2 = Some (example_pubkey2, [0x30, 0x02]) \<and>
   unknown (fst (projr (PSBTInput_Unserialize example_psbt_ext (PSBTInput_new 0)
       example_input_map))) [0xFC, 0x01] = Some [0x07] \<and>
   \<not> isl (PSBTOutput_Unserialize example_psbt_ext (PSBTOutput_new 0) example_output_map) \<and>
   distinct (map fst (map_records example_output_map)) \<and>
   \<not> isl (global_map example_psbt_ext PartiallySignedTransaction_new global_locals_new
       example_global_map_v0) \<and>
   distinct (map fst (map_records example_global_map_v0)) \<and>
   isl (PSBTInput_Unserialize example_psbt_ext (PSBTInput_new 0)
       ([0xFC, 0x01] # [0x07] # example_input_map))"
proof -
  obtain r1 where 1: "PSBTInput_Unserialize example_psbt_ext (PSBTInput_new 0)
      example_input_map = Inr (r1, [])"
    by (simp add: PSBTInput_Unserialize_def example_input_map_def input_field_def
        PSBTInput_new_def psbt_eval)
  obtain r2 where 2: "PSBTOutput_Unserialize example_psbt_ext (PSBTOutput_new 0)
      example_output_map = Inr (r2, [])"
    by (simp add: PSBTOutput_Unserialize_def example_output_map_def output_field_def
        PSBTOutput_new_def psbt_eval)
  obtain r3 l3 where 3: "global_map example_psbt_ext PartiallySignedTransaction_new
      global_locals_new example_global_map_v0 = Inr (r3, l3, [])"
    by (simp add: example_global_map_v0_def global_field_def
        PartiallySignedTransaction_new_def global_locals_new_def psbt_eval)
  note t = PSBT_duplicate_keys [where x = example_psbt_ext and rest = "[]"]
  from t [where inp = "PSBTInput_new 0" and s = example_input_map and inp' = r1] 1
  have k1: "keys_ok input_singular (input_stored example_psbt_ext r1)
      (map_records example_input_map)"
    by blast
  from t [where outp = "PSBTOutput_new 0" and s = example_output_map and outp' = r2] 2
  have k2: "keys_ok output_singular (output_stored example_psbt_ext r2)
      (map_records example_output_map)"
    by blast
  from t [where this = PartiallySignedTransaction_new and l = global_locals_new and
      s = example_global_map_v0 and this' = r3 and l' = l3] 3
  have k3: "keys_ok global_singular (global_stored r3) (map_records example_global_map_v0)"
    by blast
  have d1: "distinct (map fst (map_records example_input_map))"
    using k1 by (simp add: keys_ok_def)
  have p1: "partial_sigs r1 example_pubkey2 = Some (example_pubkey2, [0x30, 0x02])"
    using k1
    by (simp add: keys_ok_def example_input_map_def input_stored_def input_singular_def
        input_types example_psbt_ext_def)
  have u1: "unknown r1 [0xFC, 0x01] = Some [0x07]"
    using k1
    by (simp add: keys_ok_def example_input_map_def input_stored_def input_singular_def
        input_types example_psbt_ext_def)
  have d2: "distinct (map fst (map_records example_output_map))"
    using k2 by (simp add: keys_ok_def)
  have d3: "distinct (map fst (map_records example_global_map_v0))"
    using k3 by (simp add: keys_ok_def)
  have nk: "\<not> keys_ok input_singular (input_stored example_psbt_ext r)
      (map_records ([0xFC, 0x01] # [0x07] # example_input_map))" for r
    by (simp add: keys_ok_def example_input_map_def)
  have f: "isl (PSBTInput_Unserialize example_psbt_ext (PSBTInput_new 0)
      ([0xFC, 0x01] # [0x07] # example_input_map))"
  proof (cases "PSBTInput_Unserialize example_psbt_ext (PSBTInput_new 0)
      ([0xFC, 0x01] # [0x07] # example_input_map)")
    case (Inl e)
    then show ?thesis by simp
  next
    case (Inr p)
    obtain r rest where p: "p = (r, rest)" by (cases p)
    from PSBT_duplicate_keys [where x = example_psbt_ext and inp = "PSBTInput_new 0" and
        s = "[0xFC, 0x01] # [0x07] # example_input_map" and inp' = r and rest = rest]
      Inr p nk [of r]
    show ?thesis by blast
  qed
  from 1 2 3 d1 p1 u1 d2 d3 f show ?thesis by simp
qed

text \<open>
  Claim C3. When a PSBT is deserialized without error, the version that its global map
  declares is 0 or 2 (1 is fatal, and so is a \<open>VERSION\<close> field above 2). With version 0 the map
  has an \<open>UNSIGNED_TX\<close> whose inputs all have an empty \<open>scriptSig\<close> and \<open>scriptWitness\<close>, and none of
  \<open>TX_VERSION\<close>, \<open>FALLBACK_LOCKTIME\<close>, \<open>INPUT_COUNT\<close>, \<open>OUTPUT_COUNT\<close>, \<open>TX_MODIFIABLE\<close>. With
  version 2 it has \<open>TX_VERSION\<close>, \<open>INPUT_COUNT\<close> and \<open>OUTPUT_COUNT\<close> and no \<open>UNSIGNED_TX\<close>. The check
  of the version constraints passes exactly in these two cases; with a version of 2 or more
  it does not read \<open>fallback_locktime\<close> and \<open>m_tx_modifiable\<close>, which are permitted.
\<close>

theorem PSBT_version_gating:
  "(PartiallySignedTransaction_deserialize x magic s = Inr (p, rest) \<longrightarrow>
      (declared_version x s = 0 \<or> declared_version x s = 2) \<and>
      (declared_version x s = 0 \<longrightarrow>
         unsigned_tx_present x s \<and>
         \<not> has_field PSBT_GLOBAL_TX_VERSION s \<and>
         \<not> has_field PSBT_GLOBAL_FALLBACK_LOCKTIME s \<and>
         \<not> has_field PSBT_GLOBAL_INPUT_COUNT s \<and>
         \<not> has_field PSBT_GLOBAL_OUTPUT_COUNT s \<and>
         \<not> has_field PSBT_GLOBAL_TX_MODIFIABLE s) \<and>
      (declared_version x s = 2 \<longrightarrow>
         has_field PSBT_GLOBAL_TX_VERSION s \<and>
         has_field PSBT_GLOBAL_INPUT_COUNT s \<and>
         has_field PSBT_GLOBAL_OUTPUT_COUNT s \<and>
         \<not> has_field PSBT_GLOBAL_UNSIGNED_TX s)) \<and>
   (version_constraints this l ver = Inr () \<longleftrightarrow>
      (ver = 0 \<and> tx this \<noteq> None \<and> tx_version this = None \<and>
       fallback_locktime this = None \<and> \<not> found_input_count l \<and> \<not> found_output_count l \<and>
       m_tx_modifiable this = None) \<or>
      (2 \<le> ver \<and> tx_version this \<noteq> None \<and> found_input_count l \<and> found_output_count l \<and>
       tx this = None))"
proof -
  have 1: "(declared_version x s = 0 \<or> declared_version x s = 2) \<and>
      (declared_version x s = 0 \<longrightarrow>
         unsigned_tx_present x s \<and>
         \<not> has_field PSBT_GLOBAL_TX_VERSION s \<and>
         \<not> has_field PSBT_GLOBAL_FALLBACK_LOCKTIME s \<and>
         \<not> has_field PSBT_GLOBAL_INPUT_COUNT s \<and>
         \<not> has_field PSBT_GLOBAL_OUTPUT_COUNT s \<and>
         \<not> has_field PSBT_GLOBAL_TX_MODIFIABLE s) \<and>
      (declared_version x s = 2 \<longrightarrow>
         has_field PSBT_GLOBAL_TX_VERSION s \<and>
         has_field PSBT_GLOBAL_INPUT_COUNT s \<and>
         has_field PSBT_GLOBAL_OUTPUT_COUNT s \<and>
         \<not> has_field PSBT_GLOBAL_UNSIGNED_TX s)"
    if ok: "PartiallySignedTransaction_deserialize x magic s = Inr (p, rest)"
  proof -
    from deserialize_global [OF ok] obtain g l s1 where
      gm: "global_map x PartiallySignedTransaction_new global_locals_new s = Inr (g, l, s1)"
      and vc: "version_constraints g l (GetVersion g) = Inr ()"
      by blast
    note mem = global_map_members [OF gm]
    have new: "tx PartiallySignedTransaction_new = None"
      "tx_version PartiallySignedTransaction_new = None"
      "fallback_locktime PartiallySignedTransaction_new = None"
      "m_tx_modifiable PartiallySignedTransaction_new = None"
      "m_version PartiallySignedTransaction_new = None"
      "\<not> found_input_count global_locals_new" "\<not> found_output_count global_locals_new"
      by (simp_all add: PartiallySignedTransaction_new_def global_locals_new_def)
    from mem have mv: "m_version g = version_field x s"
      by (simp add: new version_field_none)
    then have gv: "GetVersion g = declared_version x s"
      by (simp add: GetVersion_def declared_version_def)
    from mem mv have le: "declared_version x s \<le> 2"
      by (cases "has_field PSBT_GLOBAL_VERSION s")
        (auto simp add: declared_version_def version_field_none)
    from mem have t: "tx g \<noteq> None \<longleftrightarrow> has_field PSBT_GLOBAL_UNSIGNED_TX s"
      by (auto simp add: new unsigned_tx_field_none unsigned_tx_present_def
          split: option.splits)
    from mem have p: "has_field PSBT_GLOBAL_UNSIGNED_TX s \<longrightarrow> unsigned_tx_present x s"
      by simp
    from mem have fl:
      "tx_version g \<noteq> None \<longleftrightarrow> has_field PSBT_GLOBAL_TX_VERSION s"
      "fallback_locktime g \<noteq> None \<longleftrightarrow> has_field PSBT_GLOBAL_FALLBACK_LOCKTIME s"
      "m_tx_modifiable g \<noteq> None \<longleftrightarrow> has_field PSBT_GLOBAL_TX_MODIFIABLE s"
      "found_input_count l \<longleftrightarrow> has_field PSBT_GLOBAL_INPUT_COUNT s"
      "found_output_count l \<longleftrightarrow> has_field PSBT_GLOBAL_OUTPUT_COUNT s"
      by (simp_all add: new)
    have two: "declared_version x s = 2" if "2 \<le> declared_version x s"
      using le that by (rule order_antisym)
    from vc [unfolded version_constraints_Inr gv]
    have cases: "(declared_version x s = 0 \<and> tx g \<noteq> None \<and> tx_version g = None \<and>
        fallback_locktime g = None \<and> \<not> found_input_count l \<and> \<not> found_output_count l \<and>
        m_tx_modifiable g = None) \<or>
       (declared_version x s = 2 \<and> tx_version g \<noteq> None \<and> found_input_count l \<and>
        found_output_count l \<and> tx g = None)"
      using two by blast
    have z: "(2 :: 32 word) \<noteq> 0" by simp
    from cases show ?thesis
    proof
      assume c: "declared_version x s = 0 \<and> tx g \<noteq> None \<and> tx_version g = None \<and>
        fallback_locktime g = None \<and> \<not> found_input_count l \<and> \<not> found_output_count l \<and>
        m_tx_modifiable g = None"
      with t p have "unsigned_tx_present x s" by simp
      with c fl z show ?thesis by simp
    next
      assume c: "declared_version x s = 2 \<and> tx_version g \<noteq> None \<and> found_input_count l \<and>
        found_output_count l \<and> tx g = None"
      with t have "\<not> has_field PSBT_GLOBAL_UNSIGNED_TX s" by simp
      with c fl z show ?thesis by simp
    qed
  qed
  show ?thesis
  proof (rule conjI)
    show "PartiallySignedTransaction_deserialize x magic s = Inr (p, rest) \<longrightarrow>
      (declared_version x s = 0 \<or> declared_version x s = 2) \<and>
      (declared_version x s = 0 \<longrightarrow>
         unsigned_tx_present x s \<and>
         \<not> has_field PSBT_GLOBAL_TX_VERSION s \<and>
         \<not> has_field PSBT_GLOBAL_FALLBACK_LOCKTIME s \<and>
         \<not> has_field PSBT_GLOBAL_INPUT_COUNT s \<and>
         \<not> has_field PSBT_GLOBAL_OUTPUT_COUNT s \<and>
         \<not> has_field PSBT_GLOBAL_TX_MODIFIABLE s) \<and>
      (declared_version x s = 2 \<longrightarrow>
         has_field PSBT_GLOBAL_TX_VERSION s \<and>
         has_field PSBT_GLOBAL_INPUT_COUNT s \<and>
         has_field PSBT_GLOBAL_OUTPUT_COUNT s \<and>
         \<not> has_field PSBT_GLOBAL_UNSIGNED_TX s)"
      by (rule impI) (rule 1)
  next
    show "version_constraints this l ver = Inr () \<longleftrightarrow>
      (ver = 0 \<and> tx this \<noteq> None \<and> tx_version this = None \<and>
       fallback_locktime this = None \<and> \<not> found_input_count l \<and> \<not> found_output_count l \<and>
       m_tx_modifiable this = None) \<or>
      (2 \<le> ver \<and> tx_version this \<noteq> None \<and> found_input_count l \<and> found_output_count l \<and>
       tx this = None)"
      by (rule version_constraints_Inr)
  qed
qed

text \<open>
  The theorem on the examples: a PSBTv2 with \<open>FALLBACK_LOCKTIME\<close> and \<open>TX_MODIFIABLE\<close> and a PSBTv0
  are read; the PSBTv0 is refused after a \<open>VERSION\<close> field of 1, and after a \<open>TX_VERSION\<close> field.
\<close>

theorem PSBT_version_gating_witness:
  "\<not> isl (PartiallySignedTransaction_deserialize example_psbt_ext PSBT_MAGIC_BYTES
       example_psbt_v2) \<and>
   declared_version example_psbt_ext example_psbt_v2 = 2 \<and>
   has_field PSBT_GLOBAL_TX_VERSION example_psbt_v2 \<and>
   has_field PSBT_GLOBAL_FALLBACK_LOCKTIME example_psbt_v2 \<and>
   has_field PSBT_GLOBAL_TX_MODIFIABLE example_psbt_v2 \<and>
   \<not> isl (PartiallySignedTransaction_deserialize example_psbt_ext PSBT_MAGIC_BYTES
       example_psbt_v0) \<and>
   declared_version example_psbt_ext example_psbt_v0 = 0 \<and>
   unsigned_tx_present example_psbt_ext example_psbt_v0 \<and>
   isl (PartiallySignedTransaction_deserialize example_psbt_ext PSBT_MAGIC_BYTES
       ([PSBT_GLOBAL_VERSION] # [0x01, 0x00, 0x00, 0x00] # example_psbt_v0)) \<and>
   isl (PartiallySignedTransaction_deserialize example_psbt_ext PSBT_MAGIC_BYTES
       ([PSBT_GLOBAL_TX_VERSION] # [0x02, 0x00, 0x00, 0x00] # example_psbt_v0))"
proof -
  obtain p2 where 2: "PartiallySignedTransaction_deserialize example_psbt_ext PSBT_MAGIC_BYTES
      example_psbt_v2 = Inr (p2, [])"
    by (simp add: example_psbt_v2_def psbt_run)
  obtain p0 where 0: "PartiallySignedTransaction_deserialize example_psbt_ext PSBT_MAGIC_BYTES
      example_psbt_v0 = Inr (p0, [])"
    by (simp add: example_psbt_v0_def psbt_run)
  have d2: "declared_version example_psbt_ext example_psbt_v2 = 2"
    by (simp add: declared_version_def version_field_def example_psbt_v2_def global_types
        example_psbt_ext_def example_u32_def)
  have d0: "declared_version example_psbt_ext example_psbt_v0 = 0"
    by (simp add: declared_version_def version_field_def example_psbt_v0_def global_types)
  have d1: "declared_version example_psbt_ext
      ([PSBT_GLOBAL_VERSION] # [0x01, 0x00, 0x00, 0x00] # example_psbt_v0) = 1"
    by (simp add: declared_version_def version_field_def example_psbt_v0_def global_types
        example_psbt_ext_def example_u32_def)
  have d3: "declared_version example_psbt_ext
      ([PSBT_GLOBAL_TX_VERSION] # [0x02, 0x00, 0x00, 0x00] # example_psbt_v0) = 0"
    by (simp add: declared_version_def version_field_def example_psbt_v0_def global_types)
  have h3: "has_field PSBT_GLOBAL_TX_VERSION
      ([PSBT_GLOBAL_TX_VERSION] # [0x02, 0x00, 0x00, 0x00] # example_psbt_v0)"
    by (simp add: has_field_def)
  have f: "has_field PSBT_GLOBAL_FALLBACK_LOCKTIME example_psbt_v2"
    "has_field PSBT_GLOBAL_TX_MODIFIABLE example_psbt_v2"
    by (simp_all add: has_field_def example_psbt_v2_def global_types)
  note t = PSBT_version_gating [where x = example_psbt_ext and magic = PSBT_MAGIC_BYTES,
      THEN conjunct1, rule_format]
  from t [OF 2] d2 have v2: "has_field PSBT_GLOBAL_TX_VERSION example_psbt_v2" by simp
  from t [OF 0] d0 have v0: "unsigned_tx_present example_psbt_ext example_psbt_v0" by simp
  have e1: "isl (PartiallySignedTransaction_deserialize example_psbt_ext PSBT_MAGIC_BYTES
       ([PSBT_GLOBAL_VERSION] # [0x01, 0x00, 0x00, 0x00] # example_psbt_v0))"
  proof (cases "PartiallySignedTransaction_deserialize example_psbt_ext PSBT_MAGIC_BYTES
       ([PSBT_GLOBAL_VERSION] # [0x01, 0x00, 0x00, 0x00] # example_psbt_v0)")
    case (Inl e)
    then show ?thesis by simp
  next
    case (Inr r)
    obtain p rest where r: "r = (p, rest)" by (cases r)
    from t [OF Inr [unfolded r]] d1 show ?thesis by simp
  qed
  have e3: "isl (PartiallySignedTransaction_deserialize example_psbt_ext PSBT_MAGIC_BYTES
       ([PSBT_GLOBAL_TX_VERSION] # [0x02, 0x00, 0x00, 0x00] # example_psbt_v0))"
  proof (cases "PartiallySignedTransaction_deserialize example_psbt_ext PSBT_MAGIC_BYTES
       ([PSBT_GLOBAL_TX_VERSION] # [0x02, 0x00, 0x00, 0x00] # example_psbt_v0)")
    case (Inl e)
    then show ?thesis by simp
  next
    case (Inr r)
    obtain p rest where r: "r = (p, rest)" by (cases r)
    from t [OF Inr [unfolded r]] d3 h3 show ?thesis by simp
  qed
  from 2 0 d2 d0 f v2 v0 e1 e3 show ?thesis by simp
qed

end
